theory Spec2Isabelle
  imports Main "HOL-Library.Word"
begin

section \<open>godns: cache-first resolution, answer synthesis and hit-count promotion\<close>

text \<open>
  A shallow embedding of the resolver of godns: \<^verbatim>\<open>dns.HandleDNSRequest\<close>,
  \<^verbatim>\<open>dns.updateMetric\<close>, \<^verbatim>\<open>dns.RespondWithRecords\<close>, the Postgres adapter
  (\<^verbatim>\<open>db.AddRecord\<close>, \<^verbatim>\<open>db.FetchRecords\<close>, \<^verbatim>\<open>db.IncrementMetric\<close>,
  \<^verbatim>\<open>db.GetDomainHits\<close>) and the Redis adapter (\<^verbatim>\<open>cache.CacheKey\<close>,
  \<^verbatim>\<open>cache.CacheRecord\<close>).

  Postgres and Redis are explicit state: the two tables and the key space are fields of
  one record, every adapter call appends an entry to an access log, and every call that
  can return an error takes a flag saying whether the client reports a failure. The
  goroutine started by \<^verbatim>\<open>go updateMetric...\<close> is returned by the handler as a value and
  run by a sequential scheduler; interleavings of several goroutines are not modelled.
\<close>

subsection \<open>Strings (package strings, on bytes)\<close>

text \<open>
  \<^verbatim>\<open>strings.ToUpper\<close>, \<^verbatim>\<open>strings.ToLower\<close> and \<^verbatim>\<open>strings.EqualFold\<close> on the
  ASCII letters; every other byte is left as it is. Names taken from a DNS question are
  ASCII (the codec escapes other bytes), and no letter of A, AAAA, CNAME or TXT has a
  case variant outside ASCII, so the type switch of the synthesizer is decided exactly.
\<close>

definition upperByte :: "char \<Rightarrow> char" where
  "upperByte c =
     (case map_of (zip ''abcdefghijklmnopqrstuvwxyz'' ''ABCDEFGHIJKLMNOPQRSTUVWXYZ'') c of
        Some u \<Rightarrow> u | None \<Rightarrow> c)"

definition lowerByte :: "char \<Rightarrow> char" where
  "lowerByte c =
     (case map_of (zip ''ABCDEFGHIJKLMNOPQRSTUVWXYZ'' ''abcdefghijklmnopqrstuvwxyz'') c of
        Some l \<Rightarrow> l | None \<Rightarrow> c)"

definition ToUpper :: "string \<Rightarrow> string" where
  "ToUpper s = map upperByte s"

definition ToLower :: "string \<Rightarrow> string" where
  "ToLower s = map lowerByte s"

definition EqualFold :: "string \<Rightarrow> string \<Rightarrow> bool" where
  "EqualFold s t \<longleftrightarrow> ToLower s = ToLower t"

definition TrimSuffix :: "string \<Rightarrow> string \<Rightarrow> string" where
  "TrimSuffix s suffix =
     (if length suffix \<le> length s \<and> drop (length s - length suffix) s = suffix
      then take (length s - length suffix) s else s)"

subsection \<open>Data model\<close>

text \<open>\<^verbatim>\<open>model.Record\<close>; Go's \<^verbatim>\<open>int\<close> is 64 bits wide on the build target.\<close>

record Record =
  Domain :: string
  QType :: string
  TTL :: "64 word"
  Value :: string

text \<open>The parts of \<^verbatim>\<open>dns.Question\<close>, \<^verbatim>\<open>dns.RR_Header\<close> and \<^verbatim>\<open>dns.Msg\<close> the handler uses.\<close>

record Question =
  Name :: string
  Qtype :: "16 word"
  Qclass :: "16 word"

record RR_Header =
  Name :: string
  Rrtype :: "16 word"
  Class :: "16 word"
  Ttl :: "32 word"

type_synonym IP = "8 word list option"

datatype RR =
    RR_A RR_Header IP
  | RR_AAAA RR_Header IP
  | RR_CNAME RR_Header string
  | RR_TXT RR_Header "string list"

record Msg =
  Question :: "Question list"
  Rcode :: int
  Answer :: "RR list"

abbreviation (input) RcodeSuccess :: int where "RcodeSuccess \<equiv> 0"
abbreviation (input) RcodeFormatError :: int where "RcodeFormatError \<equiv> 1"
abbreviation (input) RcodeServerFailure :: int where "RcodeServerFailure \<equiv> 2"
abbreviation (input) RcodeNameError :: int where "RcodeNameError \<equiv> 3"

abbreviation (input) TypeA :: "16 word" where "TypeA \<equiv> 1"
abbreviation (input) TypeCNAME :: "16 word" where "TypeCNAME \<equiv> 5"
abbreviation (input) TypeTXT :: "16 word" where "TypeTXT \<equiv> 16"
abbreviation (input) TypeAAAA :: "16 word" where "TypeAAAA \<equiv> 28"
abbreviation (input) TypeANY :: "16 word" where "TypeANY \<equiv> 255"
abbreviation (input) ClassINET :: "16 word" where "ClassINET \<equiv> 1"

subsection \<open>Library functions the repository calls\<close>

text \<open>
  Functions of the Go standard library, of miekg/dns and of the process environment are
  parameters of the model: \<^verbatim>\<open>dns.TypeToString\<close> (a map; the empty string for a type it
  does not list), \<^verbatim>\<open>dns.Fqdn\<close>, \<^verbatim>\<open>net.ParseIP\<close> (\<open>None\<close> is the nil slice),
  \<^verbatim>\<open>json.Marshal\<close> and \<^verbatim>\<open>json.Unmarshal\<close> on record lists (\<open>None\<close> is an error),
  \<^verbatim>\<open>strconv.ParseInt(s, 10, 64)\<close> (the value returned, which is 0 on a syntax error;
  the error is discarded by the caller) and \<^verbatim>\<open>os.Getenv\<close>.
\<close>

record lib =
  TypeToString :: "16 word \<Rightarrow> string"
  Fqdn :: "string \<Rightarrow> string"
  ParseIP :: "string \<Rightarrow> IP"
  Marshal :: "Record list \<Rightarrow> string"
  Unmarshal :: "string \<Rightarrow> Record list option"
  ParseInt :: "string \<Rightarrow> int"
  Getenv :: "string \<Rightarrow> string"

text \<open>
  \<^verbatim>\<open>net.IP.To4\<close>: a 4-byte address is returned as it is, a 16-byte address with the
  IPv4-in-IPv6 prefix (ten zero bytes, then \<open>0xff 0xff\<close>) gives its last four bytes, and
  anything else is nil.
\<close>

definition To4 :: "IP \<Rightarrow> IP" where
  "To4 ip =
     (case ip of
        None \<Rightarrow> None
      | Some bs \<Rightarrow>
          if length bs = 4 then Some bs
          else if length bs = 16 \<and> list_all (\<lambda>b. b = 0) (take 10 bs) \<and> bs ! 10 = 255 \<and> bs ! 11 = 255
          then Some (drop 12 bs)
          else None)"

subsection \<open>Answer synthesizer (\<^verbatim>\<open>dns.RespondWithRecords\<close>)\<close>

text \<open>
  \<^verbatim>\<open>Msg.SetReply\<close> and \<^verbatim>\<open>Msg.SetRcode\<close> of miekg/dns: a reply repeats the first question
  of the request and has rcode success; \<^verbatim>\<open>SetRcode\<close> is \<^verbatim>\<open>SetReply\<close> with the given code.
  \<^verbatim>\<open>w.WriteMsg\<close> sends the message, which the model returns; its error is discarded.
\<close>

definition SetReply :: "Msg \<Rightarrow> Msg" where
  "SetReply req = \<lparr>Question = take 1 (Question req), Rcode = RcodeSuccess, Answer = []\<rparr>"

definition SetRcode :: "Msg \<Rightarrow> int \<Rightarrow> Msg" where
  "SetRcode req rcode = (SetReply req)\<lparr>Rcode := rcode\<rparr>"

definition mkHdr :: "lib \<Rightarrow> Record \<Rightarrow> 16 word \<Rightarrow> RR_Header" where
  "mkHdr L r t = \<lparr>Name = Fqdn L (Domain r), Rrtype = t, Class = ClassINET, Ttl = ucast (TTL r)\<rparr>"

text \<open>The body of the loop: what one record appends to \<^verbatim>\<open>m.Answer\<close>.\<close>

definition appendRecord :: "lib \<Rightarrow> Question \<Rightarrow> Record \<Rightarrow> RR list \<Rightarrow> RR list" where
  "appendRecord L q r ans =
     (if EqualFold (QType r) (TypeToString L (Qtype q)) \<or> Qtype q = TypeANY then
        (let t = ToUpper (QType r) in
         if t = ''A'' then
           (let a = To4 (ParseIP L (Value r)) in
            if a \<noteq> None then ans @ [RR_A (mkHdr L r TypeA) a] else ans)
         else if t = ''AAAA'' then
           (let a = ParseIP L (Value r) in
            if a \<noteq> None then ans @ [RR_AAAA (mkHdr L r TypeAAAA) a] else ans)
         else if t = ''CNAME'' then
           ans @ [RR_CNAME (mkHdr L r TypeCNAME) (Fqdn L (Value r))]
         else if t = ''TXT'' then
           ans @ [RR_TXT (mkHdr L r TypeTXT) [Value r]]
         else ans)
      else ans)"

fun appendRecords :: "lib \<Rightarrow> Question \<Rightarrow> Record list \<Rightarrow> RR list \<Rightarrow> RR list" where
  "appendRecords L q [] ans = ans"
| "appendRecords L q (r # recs) ans = appendRecords L q recs (appendRecord L q r ans)"

definition RespondWithRecords :: "lib \<Rightarrow> Msg \<Rightarrow> Record list \<Rightarrow> Question \<Rightarrow> Msg" where
  "RespondWithRecords L req recs q = (SetReply req)\<lparr>Answer := appendRecords L q recs []\<rparr>"

subsection \<open>Persistent store and cache as state\<close>

text \<open>
  \<^verbatim>\<open>dns_records\<close> is the table of \<^verbatim>\<open>EnsureTables\<close> in row order (the \<^verbatim>\<open>id\<close> column is
  not read by any query, and a \<^verbatim>\<open>SELECT\<close> returns rows in table order); its \<^verbatim>\<open>ttl\<close>
  column is a 32-bit \<^verbatim>\<open>INT\<close>. \<^verbatim>\<open>dns_metrics\<close> maps its primary key (domain, qtype) to
  the \<^verbatim>\<open>BIGINT\<close> hits. \<^verbatim>\<open>Rdb\<close> maps a key to its value and the time at which it
  expires; \<^verbatim>\<open>now\<close> is the clock, in seconds.
\<close>

datatype io =
    RedisGet string
  | RedisSet string string
  | PgUpsert Record
  | PgFetch string string
  | PgIncrement string string
  | PgHits string string

datatype error = RedisNil | RedisError | PgError | ErrNoRows | NoRecordsToCache

record sys =
  dns_records :: "Record list"
  dns_metrics :: "string \<times> string \<rightharpoonup> int"
  Rdb :: "string \<rightharpoonup> string \<times> nat"
  now :: nat
  accesses :: "io list"

definition record_io :: "io \<Rightarrow> sys \<Rightarrow> sys" where
  "record_io e s = s\<lparr>accesses := accesses s @ [e]\<rparr>"

text \<open>The flags say which client calls of one request report an error.\<close>

record faults =
  f_get :: bool
  f_fetch :: bool
  f_incr :: bool
  f_hits :: bool
  f_refetch :: bool
  f_set :: bool

subsubsection \<open>\<^verbatim>\<open>db/postgres.go\<close>, \<^verbatim>\<open>db/metrics.go\<close>\<close>

definition sameTriple :: "Record \<Rightarrow> Record \<Rightarrow> bool" where
  "sameTriple r x \<longleftrightarrow> Domain x = Domain r \<and> QType x = QType r \<and> Value x = Value r"

definition fitsInt4 :: "64 word \<Rightarrow> bool" where
  "fitsInt4 t \<longleftrightarrow> - (2 ^ 31) \<le> sint t \<and> sint t < 2 ^ 31"

text \<open>
  \<^verbatim>\<open>INSERT ... ON CONFLICT (domain, qtype, value) DO UPDATE SET ttl = $3\<close>: the row that
  conflicts gets the new ttl, and without a conflict the row is appended. A ttl outside
  the \<^verbatim>\<open>INT\<close> column is rejected.
\<close>

definition upsert :: "Record \<Rightarrow> Record list \<Rightarrow> Record list" where
  "upsert r rows =
     (if list_ex (sameTriple r) rows
      then map (\<lambda>x. if sameTriple r x then x\<lparr>TTL := TTL r\<rparr> else x) rows
      else rows @ [r])"

definition AddRecord :: "bool \<Rightarrow> Record \<Rightarrow> sys \<Rightarrow> (error + unit) \<times> sys" where
  "AddRecord fails r s =
     (if fails \<or> \<not> fitsInt4 (TTL r) then (Inl PgError, record_io (PgUpsert r) s)
      else (Inr (), record_io (PgUpsert r) (s\<lparr>dns_records := upsert r (dns_records s)\<rparr>)))"

definition FetchRecords :: "bool \<Rightarrow> string \<Rightarrow> string \<Rightarrow> sys \<Rightarrow> (error + Record list) \<times> sys" where
  "FetchRecords fails domain qtype s =
     (if fails then (Inl PgError, record_io (PgFetch domain qtype) s)
      else (Inr (filter (\<lambda>r. Domain r = domain \<and> QType r = qtype) (dns_records s)),
            record_io (PgFetch domain qtype) s))"

text \<open>
  \<^verbatim>\<open>INSERT ... VALUES ($1,$2,1) ON CONFLICT (domain, qtype) DO UPDATE SET hits =
  dns_metrics.hits + 1\<close>; a \<^verbatim>\<open>BIGINT\<close> cannot go beyond \<open>2^63 - 1\<close>, the statement fails
  there.
\<close>

definition IncrementMetric :: "bool \<Rightarrow> string \<Rightarrow> string \<Rightarrow> sys \<Rightarrow> (error + unit) \<times> sys" where
  "IncrementMetric fails domain qtype s =
     (if fails then (Inl PgError, record_io (PgIncrement domain qtype) s)
      else case dns_metrics s (domain, qtype) of
        None \<Rightarrow>
          (Inr (), record_io (PgIncrement domain qtype)
                     (s\<lparr>dns_metrics := (dns_metrics s)((domain, qtype) \<mapsto> 1)\<rparr>))
      | Some h \<Rightarrow>
          if h + 1 < 2 ^ 63
          then (Inr (), record_io (PgIncrement domain qtype)
                          (s\<lparr>dns_metrics := (dns_metrics s)((domain, qtype) \<mapsto> h + 1)\<rparr>))
          else (Inl PgError, record_io (PgIncrement domain qtype) s))"

definition GetDomainHits :: "bool \<Rightarrow> string \<Rightarrow> string \<Rightarrow> sys \<Rightarrow> (error + int) \<times> sys" where
  "GetDomainHits fails domain qtype s =
     (if fails then (Inl PgError, record_io (PgHits domain qtype) s)
      else case dns_metrics s (domain, qtype) of
        None \<Rightarrow> (Inl ErrNoRows, record_io (PgHits domain qtype) s)
      | Some h \<Rightarrow> (Inr h, record_io (PgHits domain qtype) s))"

subsubsection \<open>The cache package (\<^verbatim>\<open>CacheKey\<close>, \<^verbatim>\<open>CacheRecord\<close>) and the Redis client\<close>

definition CacheKey :: "string \<Rightarrow> string \<Rightarrow> string" where
  "CacheKey domain qtype = ''dns:record:'' @ ToLower domain @ '':'' @ ToUpper qtype"

text \<open>\<^verbatim>\<open>Rdb.Get(ctx, key).Result()\<close>: a key that is absent or has expired gives \<^verbatim>\<open>redis.Nil\<close>.\<close>

definition RdbGet :: "bool \<Rightarrow> string \<Rightarrow> sys \<Rightarrow> (error + string) \<times> sys" where
  "RdbGet fails key s =
     (if fails then (Inl RedisError, record_io (RedisGet key) s)
      else case Rdb s key of
        None \<Rightarrow> (Inl RedisNil, record_io (RedisGet key) s)
      | Some (v, expiry) \<Rightarrow>
          if now s < expiry then (Inr v, record_io (RedisGet key) s)
          else (Inl RedisNil, record_io (RedisGet key) s))"

text \<open>\<^verbatim>\<open>Rdb.Set(ctx, key, value, expiration).Err()\<close>; a call that fails stores nothing.\<close>

definition RdbSet :: "bool \<Rightarrow> string \<Rightarrow> string \<Rightarrow> nat \<Rightarrow> sys \<Rightarrow> (error + unit) \<times> sys" where
  "RdbSet fails key v expiration s =
     (if fails then (Inl RedisError, record_io (RedisSet key v) s)
      else (Inr (), record_io (RedisSet key v) (s\<lparr>Rdb := (Rdb s)(key \<mapsto> (v, now s + expiration))\<rparr>)))"

abbreviation (input) Hour :: nat where "Hour \<equiv> 3600"

definition CacheRecord ::
    "lib \<Rightarrow> bool \<Rightarrow> string \<Rightarrow> string \<Rightarrow> Record list \<Rightarrow> sys \<Rightarrow> (error + unit) \<times> sys" where
  "CacheRecord L fails domain qtype records s =
     (if records = [] then (Inl NoRecordsToCache, s)
      else RdbSet fails (CacheKey domain qtype) (Marshal L records) Hour s)"

subsubsection \<open>\<^verbatim>\<open>util.MustGetenv\<close>\<close>

definition MustGetenv :: "lib \<Rightarrow> string \<Rightarrow> string \<Rightarrow> string" where
  "MustGetenv L key def = (let v = Getenv L key in if v \<noteq> [] then v else def)"

subsection \<open>Promotion policy (\<^verbatim>\<open>dns.updateMetric\<close>)\<close>

definition minHits :: "lib \<Rightarrow> int" where
  "minHits L = ParseInt L (MustGetenv L ''MIN_HITS_FOR_CACHE'' ''5'')"

definition updateMetric :: "lib \<Rightarrow> faults \<Rightarrow> string \<Rightarrow> string \<Rightarrow> bool \<Rightarrow> sys \<Rightarrow> sys" where
  "updateMetric L F domain qtype servedFromCache s =
     (let (_, s1) = IncrementMetric (f_incr F) domain qtype s;
          (h, s2) = GetDomainHits (f_hits F) domain qtype s1
      in case h of
           Inl err \<Rightarrow> s2
         | Inr hits \<Rightarrow>
             if hits < minHits L then s2
             else if servedFromCache then s2
             else
               (let (f, s3) = FetchRecords (f_refetch F) domain qtype s2
                in case f of
                     Inl err \<Rightarrow> s3
                   | Inr recs \<Rightarrow>
                       if recs = [] then s3
                       else snd (CacheRecord L (f_set F) domain qtype recs s3)))"

subsection \<open>Resolver (\<^verbatim>\<open>dns.HandleDNSRequest\<close>)\<close>

text \<open>The goroutine a request starts: \<^verbatim>\<open>go updateMetric(domain, qtype, servedFromCache)\<close>.\<close>

datatype task = UpdateMetric string string bool

definition HandleDNSRequest :: "lib \<Rightarrow> faults \<Rightarrow> Msg \<Rightarrow> sys \<Rightarrow> Msg \<times> task option \<times> sys" where
  "HandleDNSRequest L F r s =
     (case Question r of
        [] \<Rightarrow> (SetRcode r RcodeFormatError, None, s)
      | q # _ \<Rightarrow>
          (let domain = TrimSuffix (Question.Name q) ''.'';
               qtype = TypeToString L (Qtype q);
               (g, s1) = RdbGet (f_get F) (CacheKey domain qtype) s
           in case (case g of Inl err \<Rightarrow> None | Inr v \<Rightarrow> Unmarshal L v) of
                Some recs \<Rightarrow>
                  (RespondWithRecords L r recs q, Some (UpdateMetric domain qtype True), s1)
              | None \<Rightarrow>
                  (let (f, s2) = FetchRecords (f_fetch F) domain qtype s1
                   in case f of
                        Inl err \<Rightarrow> (SetRcode r RcodeServerFailure, None, s2)
                      | Inr recs \<Rightarrow>
                          if recs = [] then (SetRcode r RcodeNameError, None, s2)
                          else (RespondWithRecords L r recs q,
                                Some (UpdateMetric domain qtype False), s2))))"

text \<open>One request under the sequential scheduler: the handler, then the goroutine it started.\<close>

definition runTask :: "lib \<Rightarrow> faults \<Rightarrow> task option \<Rightarrow> sys \<Rightarrow> sys" where
  "runTask L F t s =
     (case t of
        None \<Rightarrow> s
      | Some (UpdateMetric domain qtype servedFromCache) \<Rightarrow>
          updateMetric L F domain qtype servedFromCache s)"

definition serve :: "lib \<Rightarrow> faults \<Rightarrow> Msg \<Rightarrow> sys \<Rightarrow> Msg \<times> sys" where
  "serve L F r s =
     (let (m, t, s1) = HandleDNSRequest L F r s in (m, runTask L F t s1))"

subsection \<open>Runs\<close>

text \<open>
  A run is a sequence of requests, each with the failures its client calls meet, and of
  lapses of time. A request is served to the end, promotion included, before the next
  event.
\<close>

datatype event = Query faults Msg | Elapse nat

fun step :: "lib \<Rightarrow> event \<Rightarrow> sys \<Rightarrow> sys" where
  "step L (Query F r) s = snd (serve L F r s)"
| "step L (Elapse n) s = s\<lparr>now := now s + n\<rparr>"

fun run :: "lib \<Rightarrow> event list \<Rightarrow> sys \<Rightarrow> sys" where
  "run L [] s = s"
| "run L (e # es) s = run L es (step L e s)"

subsection \<open>Notions used in the statements\<close>

text \<open>\<^verbatim>\<open>rr.Header()\<close> of miekg/dns.\<close>

definition Header :: "RR \<Rightarrow> RR_Header" where
  "Header rr = (case rr of RR_A h _ \<Rightarrow> h | RR_AAAA h _ \<Rightarrow> h | RR_CNAME h _ \<Rightarrow> h | RR_TXT h _ \<Rightarrow> h)"

text \<open>
  What the cache lookup of the handler yields: the decoded list on a hit, \<open>None\<close> when the
  client fails, the key is absent or expired, or the value does not decode.
\<close>

definition cacheHit :: "lib \<Rightarrow> faults \<Rightarrow> sys \<Rightarrow> string \<Rightarrow> Record list option" where
  "cacheHit L F s key =
     (if f_get F then None
      else case Rdb s key of
        None \<Rightarrow> None
      | Some (v, expiry) \<Rightarrow> if now s < expiry then Unmarshal L v else None)"

text \<open>The rows \<^verbatim>\<open>FetchRecords\<close> selects, and the rows of a domain whatever their type.\<close>

definition rowsFor :: "string \<Rightarrow> string \<Rightarrow> sys \<Rightarrow> Record list" where
  "rowsFor domain qtype s = filter (\<lambda>r. Domain r = domain \<and> QType r = qtype) (dns_records s)"

definition rowsOfDomain :: "string \<Rightarrow> sys \<Rightarrow> Record list" where
  "rowsOfDomain domain s = filter (\<lambda>r. Domain r = domain) (dns_records s)"

text \<open>The (domain, qtype) pair the handler derives from a question.\<close>

definition pairOf :: "lib \<Rightarrow> Question \<Rightarrow> string \<times> string" where
  "pairOf L q = (TrimSuffix (Question.Name q) ''.'', TypeToString L (Qtype q))"

text \<open>The entries a state transition appended to the access log.\<close>

definition newAccesses :: "sys \<Rightarrow> sys \<Rightarrow> io list" where
  "newAccesses s s' = drop (length (accesses s)) (accesses s')"

fun isRedisSet :: "io \<Rightarrow> bool" where
  "isRedisSet (RedisSet k v) = True"
| "isRedisSet _ = False"

text \<open>The policy issued a cache SET between two states.\<close>

definition cacheWrite :: "sys \<Rightarrow> sys \<Rightarrow> bool" where
  "cacheWrite s s' \<longleftrightarrow> list_ex isRedisSet (newAccesses s s')"

text \<open>What \<^verbatim>\<open>GetDomainHits\<close> returns to the policy after its \<^verbatim>\<open>IncrementMetric\<close>.\<close>

definition readBack :: "faults \<Rightarrow> string \<Rightarrow> string \<Rightarrow> sys \<Rightarrow> int option" where
  "readBack F domain qtype s =
     (case fst (GetDomainHits (f_hits F) domain qtype
                  (snd (IncrementMetric (f_incr F) domain qtype s))) of
        Inl err \<Rightarrow> None
      | Inr hits \<Rightarrow> Some hits)"

text \<open>The counter of a pair after \<^verbatim>\<open>IncrementMetric\<close>.\<close>

definition counterAfter :: "bool \<Rightarrow> int option \<Rightarrow> int option" where
  "counterAfter fails c =
     (if fails then c
      else case c of None \<Rightarrow> Some 1 | Some h \<Rightarrow> if h + 1 < 2 ^ 63 then Some (h + 1) else Some h)"

text \<open>The state after the two counter statements, with which every run of the policy starts.\<close>

definition counted :: "faults \<Rightarrow> string \<Rightarrow> string \<Rightarrow> sys \<Rightarrow> sys" where
  "counted F d t s =
     s\<lparr>dns_metrics := (dns_metrics s)((d, t) := counterAfter (f_incr F) (dns_metrics s (d, t))),
       accesses := accesses s @ [PgIncrement d t, PgHits d t]\<rparr>"

text \<open>The columns of the \<^verbatim>\<open>UNIQUE(domain, qtype, value)\<close> constraint of \<^verbatim>\<open>dns_records\<close>.\<close>

definition triple :: "Record \<Rightarrow> string \<times> string \<times> string" where
  "triple r = (Domain r, QType r, Value r)"

text \<open>A sequence of \<^verbatim>\<open>AddRecord\<close> calls that the database accepts.\<close>

fun AddRecords :: "Record list \<Rightarrow> sys \<Rightarrow> sys" where
  "AddRecords [] s = s"
| "AddRecords (r # rs) s = AddRecords rs (snd (AddRecord False r s))"

text \<open>The counter of a pair is absent or below the threshold.\<close>

definition belowThreshold :: "lib \<Rightarrow> sys \<Rightarrow> string \<times> string \<Rightarrow> bool" where
  "belowThreshold L s p = (case dns_metrics s p of None \<Rightarrow> True | Some h \<Rightarrow> h < minHits L)"

text \<open>The requests of a run all concern pairs whose counter is below the threshold in \<open>s'\<close>.\<close>

fun queriesBelow :: "lib \<Rightarrow> sys \<Rightarrow> event list \<Rightarrow> bool" where
  "queriesBelow L s' [] = True"
| "queriesBelow L s' (Query F r # es) =
     ((case Question r of [] \<Rightarrow> True | q # _ \<Rightarrow> belowThreshold L s' (pairOf L q))
      \<and> queriesBelow L s' es)"
| "queriesBelow L s' (Elapse n # es) = queriesBelow L s' es"

text \<open>The handler answered the request from the store and started the policy for the pair.\<close>

definition storeServed :: "lib \<Rightarrow> event \<Rightarrow> sys \<Rightarrow> string \<times> string \<Rightarrow> bool" where
  "storeServed L e s p =
     (case e of
        Query F r \<Rightarrow>
          fst (snd (HandleDNSRequest L F r s)) = Some (UpdateMetric (fst p) (snd p) False)
      | Elapse n \<Rightarrow> False)"

text \<open>The number of store-served responses for a pair in a run from \<open>s\<close>.\<close>

fun countStoreServed :: "lib \<Rightarrow> string \<times> string \<Rightarrow> event list \<Rightarrow> sys \<Rightarrow> nat" where
  "countStoreServed L p [] s = 0"
| "countStoreServed L p (e # es) s =
     (if storeServed L e s p then 1 else 0) + countStoreServed L p es (step L e s)"

text \<open>The event is a request for the pair whose policy run issued a cache SET.\<close>

definition policyWrote :: "lib \<Rightarrow> event \<Rightarrow> sys \<Rightarrow> string \<times> string \<Rightarrow> bool" where
  "policyWrote L e s p =
     (case e of
        Query F r \<Rightarrow>
          (case Question r of
             [] \<Rightarrow> False
           | q # _ \<Rightarrow> pairOf L q = p \<and> cacheWrite s (step L e s))
      | Elapse n \<Rightarrow> False)"

text \<open>No request of the run is for another pair with the cache key of \<open>p\<close>.\<close>

definition sharesKey :: "string \<times> string \<Rightarrow> string \<times> string \<Rightarrow> bool" where
  "sharesKey p p' \<longleftrightarrow> p' \<noteq> p \<and> CacheKey (fst p') (snd p') = CacheKey (fst p) (snd p)"

fun noAlias :: "lib \<Rightarrow> string \<times> string \<Rightarrow> event list \<Rightarrow> bool" where
  "noAlias L p [] = True"
| "noAlias L p (Query F r # es) =
     ((case Question r of [] \<Rightarrow> True | q # _ \<Rightarrow> \<not> sharesKey p (pairOf L q)) \<and> noAlias L p es)"
| "noAlias L p (Elapse n # es) = noAlias L p es"

text \<open>
  The invariant of a run that starts with the pair uncached and its counter absent:
  either \<open>k\<close> store-served responses have reached the threshold, or the key is still
  absent and the counter is at most \<open>k\<close>.
\<close>

definition coldInv :: "lib \<Rightarrow> string \<times> string \<Rightarrow> nat \<Rightarrow> sys \<Rightarrow> bool" where
  "coldInv L p k s \<longleftrightarrow>
     minHits L \<le> int k
     \<or> (Rdb s (CacheKey (fst p) (snd p)) = None
        \<and> (case dns_metrics s p of None \<Rightarrow> True | Some h \<Rightarrow> h \<le> int k))"

subsection \<open>Sample data\<close>

text \<open>
  The values of the library functions at the inputs of the examples below: the type names
  of \<^verbatim>\<open>dns.TypeToString\<close>, \<^verbatim>\<open>dns.Fqdn\<close> on names without escapes, \<^verbatim>\<open>net.ParseIP\<close>
  (which returns the 16-byte form), a JSON codec on the lists that are cached, an
  environment in which no variable is set (\<open>lib0\<close>) and one that sets the threshold to 2
  (\<open>lib2\<close>); then records, store states, requests and events.
\<close>

definition TypeToString0 :: "16 word \<Rightarrow> string" where
  "TypeToString0 t =
     (case map_of [(1, ''A''), (2, ''NS''), (5, ''CNAME''), (15, ''MX''), (16, ''TXT''),
                   (28, ''AAAA''), (255, ''ANY'')] t of
        Some n \<Rightarrow> n | None \<Rightarrow> [])"

definition Fqdn0 :: "string \<Rightarrow> string" where
  "Fqdn0 s = (if s \<noteq> [] \<and> last s = CHR ''.'' then s else s @ ''.'')"

definition ParseIP0 :: "string \<Rightarrow> IP" where
  "ParseIP0 s =
     (if s = ''203.0.113.5'' then Some [0,0,0,0,0,0,0,0,0,0,255,255,203,0,113,5]
      else if s = ''2001:db8::1'' then Some [32,1,13,184,0,0,0,0,0,0,0,0,0,0,0,1]
      else None)"

definition sampleA :: Record where
  "sampleA = \<lparr>Domain = ''example.com'', QType = ''A'', TTL = 300, Value = ''203.0.113.5''\<rparr>"

definition sampleUpper :: Record where
  "sampleUpper = \<lparr>Domain = ''Example.com'', QType = ''A'', TTL = 300, Value = ''203.0.113.5''\<rparr>"

definition Marshal0 :: "Record list \<Rightarrow> string" where
  "Marshal0 rs =
     (if rs = [sampleA] then ''[example.com A 300 203.0.113.5]''
      else if rs = [sampleUpper] then ''[Example.com A 300 203.0.113.5]''
      else ''null'')"

definition Unmarshal0 :: "string \<Rightarrow> Record list option" where
  "Unmarshal0 s =
     (if s = ''[example.com A 300 203.0.113.5]'' then Some [sampleA]
      else if s = ''[Example.com A 300 203.0.113.5]'' then Some [sampleUpper]
      else if s = ''null'' then Some []
      else None)"

definition ParseInt0 :: "string \<Rightarrow> int" where
  "ParseInt0 s = (if s = ''5'' then 5 else if s = ''2'' then 2 else 0)"

definition lib0 :: lib where
  "lib0 = \<lparr>TypeToString = TypeToString0, Fqdn = Fqdn0, ParseIP = ParseIP0, Marshal = Marshal0,
            Unmarshal = Unmarshal0, ParseInt = ParseInt0, Getenv = (\<lambda>k. [])\<rparr>"

definition lib2 :: lib where
  "lib2 = lib0\<lparr>Getenv := (\<lambda>k. if k = ''MIN_HITS_FOR_CACHE'' then ''2'' else [])\<rparr>"

definition noFaults :: faults where
  "noFaults = \<lparr>f_get = False, f_fetch = False, f_incr = False, f_hits = False,
                f_refetch = False, f_set = False\<rparr>"

definition fetchFails :: faults where
  "fetchFails = noFaults\<lparr>f_fetch := True\<rparr>"

definition emptySys :: sys where
  "emptySys = \<lparr>dns_records = [], dns_metrics = Map.empty, Rdb = Map.empty, now = 0, accesses = []\<rparr>"

definition badA :: Record where
  "badA = \<lparr>Domain = ''example.com'', QType = ''A'', TTL = 60, Value = ''not-an-address''\<rparr>"

definition sampleTXT :: Record where
  "sampleTXT = \<lparr>Domain = ''example.com'', QType = ''TXT'', TTL = 120, Value = ''hello''\<rparr>"

definition v4inAAAA :: Record where
  "v4inAAAA = \<lparr>Domain = ''example.com'', QType = ''AAAA'', TTL = 300, Value = ''203.0.113.5''\<rparr>"

definition sampleMX :: Record where
  "sampleMX = \<lparr>Domain = ''example.com'', QType = ''MX'', TTL = 300, Value = ''10 mail.example.com.''\<rparr>"

definition sampleA600 :: Record where
  "sampleA600 = sampleA\<lparr>TTL := 600\<rparr>"

definition sysA :: sys where
  "sysA = emptySys\<lparr>dns_records := [sampleA]\<rparr>"

definition sysBadA :: sys where
  "sysBadA = emptySys\<lparr>dns_records := [badA]\<rparr>"

definition sysCached :: sys where
  "sysCached = sysA\<lparr>Rdb := [''dns:record:example.com:A'' \<mapsto> (Marshal lib0 [sampleA], Hour)]\<rparr>"

definition sysCorrupt :: sys where
  "sysCorrupt = sysA\<lparr>Rdb := [''dns:record:example.com:A'' \<mapsto> (''{'', Hour)]\<rparr>"

definition sysAU :: sys where
  "sysAU = emptySys\<lparr>dns_records := [sampleA, sampleUpper]\<rparr>"

definition query :: "string \<Rightarrow> 16 word \<Rightarrow> Msg" where
  "query name t = \<lparr>Question = [\<lparr>Question.Name = name, Qtype = t, Qclass = ClassINET\<rparr>], Rcode = 0, Answer = []\<rparr>"

definition noQuestion :: Msg where
  "noQuestion = \<lparr>Question = [], Rcode = 0, Answer = []\<rparr>"

definition qA :: Question where
  "qA = \<lparr>Question.Name = ''example.com.'', Qtype = TypeA, Qclass = ClassINET\<rparr>"

definition qAAAA :: Question where
  "qAAAA = \<lparr>Question.Name = ''example.com.'', Qtype = TypeAAAA, Qclass = ClassINET\<rparr>"

definition qUpper :: Question where
  "qUpper = \<lparr>Question.Name = ''Example.com.'', Qtype = TypeA, Qclass = ClassINET\<rparr>"

definition askA :: event where
  "askA = Query noFaults (query ''example.com.'' TypeA)"

definition askUpper :: event where
  "askUpper = Query noFaults (query ''Example.com.'' TypeA)"

section \<open>Properties\<close>

subsection \<open>Answer synthesizer\<close>

lemma appendRecord_app: "appendRecord L q r ans = ans @ appendRecord L q r []"
  by (simp add: appendRecord_def Let_def)

lemma appendRecords_concat:
  "appendRecords L q recs ans = ans @ concat (map (\<lambda>r. appendRecord L q r []) recs)"
proof (induction recs arbitrary: ans)
  case Nil
  show ?case by simp
next
  case (Cons r recs)
  have "appendRecords L q (r # recs) ans = appendRecords L q recs (appendRecord L q r ans)"
    by simp
  also have "\<dots> = appendRecord L q r ans @ concat (map (\<lambda>r. appendRecord L q r []) recs)"
    by (rule Cons.IH)
  also have "\<dots> = (ans @ appendRecord L q r []) @ concat (map (\<lambda>r. appendRecord L q r []) recs)"
    using appendRecord_app [of L q r ans] by simp
  finally show ?case by simp
qed

lemmas str_simps = ToUpper_def ToLower_def upperByte_def lowerByte_def EqualFold_def TrimSuffix_def

lemmas lib0_simps = lib0_def TypeToString0_def Fqdn0_def ParseIP0_def Marshal0_def Unmarshal0_def
  ParseInt0_def sampleA_def

lemma Answer_RespondWithRecords:
  "Answer (RespondWithRecords L req recs q) = concat (map (\<lambda>r. appendRecord L q r []) recs)"
  by (simp add: RespondWithRecords_def appendRecords_concat)

lemma Rcode_RespondWithRecords: "Rcode (RespondWithRecords L req recs q) = RcodeSuccess"
  by (simp add: RespondWithRecords_def SetReply_def)

lemma appendRecord_Header:
  assumes "rr \<in> set (appendRecord L q r [])"
  shows "RR_Header.Name (Header rr) = Fqdn L (Domain r) \<and> Ttl (Header rr) = ucast (TTL r)
         \<and> Class (Header rr) = ClassINET"
  using assms by (auto simp: appendRecord_def Let_def Header_def mkHdr_def split: if_splits)

text \<open>
  Claim C7. The synthesizer always answers with a success message whose answer section is
  the concatenation, in order, of what each record contributes on its own. A record of
  type A whose value \<^verbatim>\<open>net.ParseIP(...).To4()\<close> turns into nil contributes nothing, so
  the response is the one of the list without it. Every answer has as owner name
  \<^verbatim>\<open>dns.Fqdn\<close> of the domain of a record of the list and as TTL that record's TTL
  converted to 32 bits unsigned.
\<close>

theorem invalid_A_value_dropped:
  "Rcode (RespondWithRecords L req recs q) = RcodeSuccess
   \<and> Answer (RespondWithRecords L req recs q) = concat (map (\<lambda>r. appendRecord L q r []) recs)
   \<and> (ToUpper (QType r) = ''A'' \<and> To4 (ParseIP L (Value r)) = None \<longrightarrow>
        appendRecord L q r [] = []
        \<and> Answer (RespondWithRecords L req (xs @ r # ys) q)
            = Answer (RespondWithRecords L req (xs @ ys) q))
   \<and> (\<forall>rr \<in> set (Answer (RespondWithRecords L req recs q)).
         \<exists>x \<in> set recs. RR_Header.Name (Header rr) = Fqdn L (Domain x)
                        \<and> Ttl (Header rr) = (ucast (TTL x) :: 32 word))"
proof (intro conjI impI ballI)
  show "Rcode (RespondWithRecords L req recs q) = RcodeSuccess"
    by (rule Rcode_RespondWithRecords)
  show "Answer (RespondWithRecords L req recs q) = concat (map (\<lambda>r. appendRecord L q r []) recs)"
    by (rule Answer_RespondWithRecords)
next
  assume a: "ToUpper (QType r) = ''A'' \<and> To4 (ParseIP L (Value r)) = None"
  then show d: "appendRecord L q r [] = []"
    by (simp add: appendRecord_def)
  show "Answer (RespondWithRecords L req (xs @ r # ys) q)
          = Answer (RespondWithRecords L req (xs @ ys) q)"
    by (simp add: Answer_RespondWithRecords d)
next
  fix rr assume "rr \<in> set (Answer (RespondWithRecords L req recs q))"
  then obtain x where x: "x \<in> set recs" "rr \<in> set (appendRecord L q x [])"
    by (auto simp: Answer_RespondWithRecords)
  from appendRecord_Header [OF x(2)] x(1)
  show "\<exists>x \<in> set recs. RR_Header.Name (Header rr) = Fqdn L (Domain x)
                        \<and> Ttl (Header rr) = (ucast (TTL x) :: 32 word)"
    by blast
qed

theorem invalid_A_value_dropped_witness:
  "ToUpper (QType badA) = ''A'' \<and> To4 (ParseIP lib0 (Value badA)) = None
   \<and> Rcode (RespondWithRecords lib0 (query ''example.com.'' TypeANY) [sampleA, badA, sampleTXT]
              \<lparr>Question.Name = ''example.com.'', Qtype = TypeANY, Qclass = ClassINET\<rparr>) = RcodeSuccess
   \<and> Answer (RespondWithRecords lib0 (query ''example.com.'' TypeANY) [sampleA, badA, sampleTXT]
              \<lparr>Question.Name = ''example.com.'', Qtype = TypeANY, Qclass = ClassINET\<rparr>)
       = [RR_A \<lparr>Name = ''example.com.'', Rrtype = TypeA, Class = ClassINET, Ttl = 300\<rparr>
               (Some [203, 0, 113, 5]),
          RR_TXT \<lparr>Name = ''example.com.'', Rrtype = TypeTXT, Class = ClassINET, Ttl = 120\<rparr>
               [''hello'']]"
proof -
  let ?req = "query ''example.com.'' TypeANY"
  let ?q = "\<lparr>Question.Name = ''example.com.'', Qtype = TypeANY, Qclass = ClassINET\<rparr>"
  have h: "ToUpper (QType badA) = ''A'' \<and> To4 (ParseIP lib0 (Value badA)) = None"
    by (simp add: badA_def str_simps lib0_simps To4_def)
  have e: "Answer (RespondWithRecords lib0 ?req [sampleA, sampleTXT] ?q)
       = [RR_A \<lparr>Name = ''example.com.'', Rrtype = TypeA, Class = ClassINET, Ttl = 300\<rparr>
               (Some [203, 0, 113, 5]),
          RR_TXT \<lparr>Name = ''example.com.'', Rrtype = TypeTXT, Class = ClassINET, Ttl = 120\<rparr>
               [''hello'']]"
    by (simp add: RespondWithRecords_def SetReply_def appendRecord_def mkHdr_def To4_def
        sampleTXT_def str_simps lib0_simps)
  note t = invalid_A_value_dropped [of lib0 ?req "[sampleA, badA, sampleTXT]" ?q badA
      "[sampleA]" "[sampleTXT]"]
  have r: "Rcode (RespondWithRecords lib0 ?req [sampleA, badA, sampleTXT] ?q) = RcodeSuccess"
    using t by blast
  have "Answer (RespondWithRecords lib0 ?req ([sampleA] @ badA # [sampleTXT]) ?q)
          = Answer (RespondWithRecords lib0 ?req ([sampleA] @ [sampleTXT]) ?q)"
    using t h by blast
  then have "Answer (RespondWithRecords lib0 ?req [sampleA, badA, sampleTXT] ?q)
          = Answer (RespondWithRecords lib0 ?req [sampleA, sampleTXT] ?q)"
    by (simp only: append.simps)
  with e have a: "Answer (RespondWithRecords lib0 ?req [sampleA, badA, sampleTXT] ?q)
       = [RR_A \<lparr>Name = ''example.com.'', Rrtype = TypeA, Class = ClassINET, Ttl = 300\<rparr>
               (Some [203, 0, 113, 5]),
          RR_TXT \<lparr>Name = ''example.com.'', Rrtype = TypeTXT, Class = ClassINET, Ttl = 120\<rparr>
               [''hello'']]"
    by simp
  from h r a show ?thesis by blast
qed

text \<open>
  Claim C8. A record of type AAAA that the type filter selects and whose value
  \<^verbatim>\<open>net.ParseIP\<close> accepts gives an AAAA answer holding the parsed address, whatever the
  address family: the AAAA branch does not call \<^verbatim>\<open>To4\<close>, so a dotted-decimal IPv4 literal
  is answered too.
\<close>

theorem AAAA_accepts_any_IP:
  assumes "r \<in> set recs"
    and "ToUpper (QType r) = ''AAAA''"
    and "EqualFold (QType r) (TypeToString L (Qtype q)) \<or> Qtype q = TypeANY"
    and "ParseIP L (Value r) = Some bs"
  shows "RR_AAAA (mkHdr L r TypeAAAA) (Some bs) \<in> set (Answer (RespondWithRecords L req recs q))"
proof -
  have "appendRecord L q r [] = [RR_AAAA (mkHdr L r TypeAAAA) (Some bs)]"
    using assms(2-4) by (simp add: appendRecord_def)
  with assms(1) show ?thesis
    by (force simp: Answer_RespondWithRecords)
qed

theorem AAAA_accepts_any_IP_witness:
  "To4 (ParseIP lib0 (Value v4inAAAA)) = Some [203, 0, 113, 5]
   \<and> RR_AAAA \<lparr>Name = ''example.com.'', Rrtype = TypeAAAA, Class = ClassINET, Ttl = 300\<rparr>
        (Some [0, 0, 0, 0, 0, 0, 0, 0, 0, 0, 255, 255, 203, 0, 113, 5])
      \<in> set (Answer (RespondWithRecords lib0 (query ''example.com.'' TypeAAAA) [v4inAAAA]
                \<lparr>Question.Name = ''example.com.'', Qtype = TypeAAAA, Qclass = ClassINET\<rparr>))"
proof -
  have 1: "v4inAAAA \<in> set [v4inAAAA]" by simp
  have 2: "ToUpper (QType v4inAAAA) = ''AAAA''"
    by (simp add: v4inAAAA_def str_simps)
  have 3: "EqualFold (QType v4inAAAA)
             (TypeToString lib0 (Qtype \<lparr>Question.Name = ''example.com.'', Qtype = TypeAAAA, Qclass = ClassINET\<rparr>))
           \<or> Qtype \<lparr>Question.Name = ''example.com.'', Qtype = TypeAAAA, Qclass = ClassINET\<rparr> = TypeANY"
    by (simp add: v4inAAAA_def str_simps lib0_simps)
  have 4: "ParseIP lib0 (Value v4inAAAA) = Some [0, 0, 0, 0, 0, 0, 0, 0, 0, 0, 255, 255, 203, 0, 113, 5]"
    by (simp add: v4inAAAA_def lib0_simps)
  have 5: "mkHdr lib0 v4inAAAA TypeAAAA
             = \<lparr>Name = ''example.com.'', Rrtype = TypeAAAA, Class = ClassINET, Ttl = 300\<rparr>"
    by (simp add: mkHdr_def v4inAAAA_def lib0_simps)
  have 6: "To4 (ParseIP lib0 (Value v4inAAAA)) = Some [203, 0, 113, 5]"
    by (simp add: 4 To4_def)
  from AAAA_accepts_any_IP [OF 1 2 3 4, of "query ''example.com.'' TypeAAAA"] 5 6
  show ?thesis by simp
qed

text \<open>
  Claim C10. A record whose stored type, in upper case, is none of A, AAAA, CNAME and TXT
  contributes no answer, for every requested type (also one equal to the stored type, and
  ANY): the response is the one of the list without the record.
\<close>

theorem unsupported_type_no_answer:
  assumes "ToUpper (QType r) \<notin> {''A'', ''AAAA'', ''CNAME'', ''TXT''}"
  shows "appendRecord L q r ans = ans
         \<and> Answer (RespondWithRecords L req (xs @ r # ys) q)
             = Answer (RespondWithRecords L req (xs @ ys) q)"
proof -
  have a: "appendRecord L q r ans = ans" for ans
    using assms by (simp add: appendRecord_def Let_def)
  then show ?thesis
    by (simp add: Answer_RespondWithRecords)
qed

theorem unsupported_type_no_answer_witness:
  "EqualFold (QType sampleMX) (TypeToString lib0 15)
   \<and> Answer (RespondWithRecords lib0 (query ''example.com.'' 15) [sampleMX]
               \<lparr>Question.Name = ''example.com.'', Qtype = 15, Qclass = ClassINET\<rparr>) = []
   \<and> Answer (RespondWithRecords lib0 (query ''example.com.'' TypeANY) [sampleA, sampleMX]
               \<lparr>Question.Name = ''example.com.'', Qtype = TypeANY, Qclass = ClassINET\<rparr>)
       = Answer (RespondWithRecords lib0 (query ''example.com.'' TypeANY) [sampleA]
               \<lparr>Question.Name = ''example.com.'', Qtype = TypeANY, Qclass = ClassINET\<rparr>)"
proof -
  have h: "ToUpper (QType sampleMX) \<notin> {''A'', ''AAAA'', ''CNAME'', ''TXT''}"
    by (simp add: sampleMX_def str_simps)
  have e: "EqualFold (QType sampleMX) (TypeToString lib0 15)"
    by (simp add: sampleMX_def str_simps lib0_simps)
  have n: "Answer (RespondWithRecords lib0 (query ''example.com.'' 15) []
               \<lparr>Question.Name = ''example.com.'', Qtype = 15, Qclass = ClassINET\<rparr>) = []"
    by (simp add: RespondWithRecords_def)
  from unsupported_type_no_answer [OF h, of lib0 "\<lparr>Question.Name = ''example.com.'', Qtype = 15, Qclass = ClassINET\<rparr>"
        "[]" "query ''example.com.'' 15" "[]" "[]"]
       unsupported_type_no_answer [OF h, of lib0 "\<lparr>Question.Name = ''example.com.'', Qtype = TypeANY, Qclass = ClassINET\<rparr>"
        "[]" "query ''example.com.'' TypeANY" "[sampleA]" "[]"]
  show ?thesis using e n by simp
qed

subsection \<open>Resolver\<close>

lemma RdbGet_state: "snd (RdbGet fails key s) = record_io (RedisGet key) s"
  by (simp add: RdbGet_def split: option.splits prod.splits)

lemma RdbGet_cacheHit:
  "(case fst (RdbGet (f_get F) key s) of Inl err \<Rightarrow> None | Inr v \<Rightarrow> Unmarshal L v)
     = cacheHit L F s key"
  by (simp add: RdbGet_def cacheHit_def split: option.splits prod.splits)

lemma FetchRecords_eq:
  "FetchRecords fails domain qtype s =
     (if fails then Inl PgError else Inr (rowsFor domain qtype s), record_io (PgFetch domain qtype) s)"
  by (simp add: FetchRecords_def rowsFor_def)

lemma rowsFor_record_io [simp]: "rowsFor d t (record_io e s) = rowsFor d t s"
  by (simp add: rowsFor_def record_io_def)

lemma Handle_no_question:
  "Question r = [] \<Longrightarrow> HandleDNSRequest L F r s = (SetRcode r RcodeFormatError, None, s)"
  by (simp add: HandleDNSRequest_def)

lemma Handle_question:
  assumes "Question r = q # qs"
  shows "HandleDNSRequest L F r s =
     (let domain = fst (pairOf L q); qtype = snd (pairOf L q);
          s1 = record_io (RedisGet (CacheKey domain qtype)) s;
          s2 = record_io (PgFetch domain qtype) s1
      in case cacheHit L F s (CacheKey domain qtype) of
           Some recs \<Rightarrow> (RespondWithRecords L r recs q, Some (UpdateMetric domain qtype True), s1)
         | None \<Rightarrow>
             if f_fetch F then (SetRcode r RcodeServerFailure, None, s2)
             else if rowsFor domain qtype s = [] then (SetRcode r RcodeNameError, None, s2)
             else (RespondWithRecords L r (rowsFor domain qtype s) q,
                   Some (UpdateMetric domain qtype False), s2))"
proof -
  let ?d = "TrimSuffix (Question.Name q) ''.''" and ?t = "TypeToString L (Qtype q)"
  obtain g s1 where g: "RdbGet (f_get F) (CacheKey ?d ?t) s = (g, s1)"
    by (cases "RdbGet (f_get F) (CacheKey ?d ?t) s")
  have s1: "s1 = record_io (RedisGet (CacheKey ?d ?t)) s"
    using RdbGet_state [of "f_get F" "CacheKey ?d ?t" s] g by simp
  have c: "(case g of Inl err \<Rightarrow> None | Inr v \<Rightarrow> Unmarshal L v) = cacheHit L F s (CacheKey ?d ?t)"
    using RdbGet_cacheHit [where F = F and key = "CacheKey ?d ?t" and s = s and L = L] g by simp
  show ?thesis
    using assms
    by (simp add: HandleDNSRequest_def g c s1 pairOf_def FetchRecords_eq Let_def
             split: option.splits)
qed

lemma IncrementMetric_state:
  "snd (IncrementMetric fails d t s) =
     record_io (PgIncrement d t)
       (s\<lparr>dns_metrics := (dns_metrics s)((d, t) := counterAfter fails (dns_metrics s (d, t)))\<rparr>)"
proof -
  have same: "s\<lparr>dns_metrics := (dns_metrics s)((d, t) := dns_metrics s (d, t))\<rparr> = s"
    by simp
  show ?thesis
  proof (cases fails)
    case True
    then show ?thesis
      by (simp add: IncrementMetric_def counterAfter_def)
  next
    case False
    show ?thesis
    proof (cases "dns_metrics s (d, t)")
      case None
      with False show ?thesis
        by (simp add: IncrementMetric_def counterAfter_def)
    next
      case (Some h)
      with same have "s\<lparr>dns_metrics := (dns_metrics s)((d, t) \<mapsto> h)\<rparr> = s"
        by simp
      with False Some show ?thesis
        by (simp add: IncrementMetric_def counterAfter_def)
    qed
  qed
qed

lemma GetDomainHits_state: "snd (GetDomainHits fails d t s) = record_io (PgHits d t) s"
  by (simp add: GetDomainHits_def split: option.splits)

lemma GetDomainHits_value:
  "fst (GetDomainHits fails d t s) =
     (if fails then Inl PgError
      else case dns_metrics s (d, t) of None \<Rightarrow> Inl ErrNoRows | Some h \<Rightarrow> Inr h)"
  by (simp add: GetDomainHits_def split: option.splits)

lemma readBack_eq:
  "readBack F d t s = (if f_hits F then None else counterAfter (f_incr F) (dns_metrics s (d, t)))"
  by (simp add: readBack_def GetDomainHits_value IncrementMetric_state record_io_def
           split: option.splits)

lemma updateMetric_eq:
  "updateMetric L F d t b s =
     (case readBack F d t s of
        None \<Rightarrow> counted F d t s
      | Some hits \<Rightarrow>
          if hits < minHits L \<or> b then counted F d t s
          else if f_refetch F \<or> rowsFor d t s = []
          then record_io (PgFetch d t) (counted F d t s)
          else snd (RdbSet (f_set F) (CacheKey d t) (Marshal L (rowsFor d t s)) Hour
                      (record_io (PgFetch d t) (counted F d t s))))"
proof -
  obtain e s1 where i: "IncrementMetric (f_incr F) d t s = (e, s1)"
    by (cases "IncrementMetric (f_incr F) d t s")
  obtain h s2 where g: "GetDomainHits (f_hits F) d t s1 = (h, s2)"
    by (cases "GetDomainHits (f_hits F) d t s1")
  have s1: "s1 = record_io (PgIncrement d t)
       (s\<lparr>dns_metrics := (dns_metrics s)((d, t) := counterAfter (f_incr F) (dns_metrics s (d, t)))\<rparr>)"
    using IncrementMetric_state [of "f_incr F" d t s] i by simp
  have s2: "s2 = counted F d t s"
    using GetDomainHits_state [of "f_hits F" d t s1] g
    by (simp add: s1 counted_def record_io_def)
  have h: "readBack F d t s = (case h of Inl err \<Rightarrow> None | Inr hits \<Rightarrow> Some hits)"
    by (simp add: readBack_def i g)
  have r: "rowsFor d t (counted F d t s) = rowsFor d t s"
    by (simp add: rowsFor_def counted_def)
  show ?thesis
    by (cases h)
       (auto simp: updateMetric_def i g h s2 FetchRecords_eq r CacheRecord_def Let_def)
qed

lemma newAccesses_app [simp]: "newAccesses s (s'\<lparr>accesses := accesses s @ xs\<rparr>) = xs"
  by (simp add: newAccesses_def)

lemma Handle_hit:
  assumes "Question r = q # qs" and "pairOf L q = (d, t)"
    and "cacheHit L F s (CacheKey d t) = Some recs"
  shows "HandleDNSRequest L F r s =
           (RespondWithRecords L r recs q, Some (UpdateMetric d t True),
            s\<lparr>accesses := accesses s @ [RedisGet (CacheKey d t)]\<rparr>)"
  using assms by (simp add: Handle_question record_io_def)

lemma Handle_miss:
  assumes "Question r = q # qs" and "pairOf L q = (d, t)"
    and "cacheHit L F s (CacheKey d t) = None"
  shows "HandleDNSRequest L F r s =
           (if f_fetch F then SetRcode r RcodeServerFailure
            else if rowsFor d t s = [] then SetRcode r RcodeNameError
            else RespondWithRecords L r (rowsFor d t s) q,
            if f_fetch F \<or> rowsFor d t s = [] then None else Some (UpdateMetric d t False),
            s\<lparr>accesses := accesses s @ [RedisGet (CacheKey d t), PgFetch d t]\<rparr>)"
  using assms by (simp add: Handle_question record_io_def)

lemma Rcode_SetRcode: "Rcode (SetRcode r c) = c" and Answer_SetRcode: "Answer (SetRcode r c) = []"
  by (simp_all add: SetRcode_def SetReply_def)

text \<open>
  Claim C3. The handler ends in one of four ways. Without a question it answers
  FormatError and touches neither cache nor store (the state is returned as it was). With a
  question and no usable cache entry it makes one \<^verbatim>\<open>FetchRecords\<close> call: ServerFailure
  when the call fails, NameError when it returns no row, and otherwise the synthesized
  success response, with the promotion goroutine started for a store-served response.
  With a usable cache entry it answers from the entry. No other response code occurs, and
  only a success response carries answers.
\<close>

theorem resolver_outcomes:
  "(Question r = [] \<longrightarrow>
      HandleDNSRequest L F r s = (SetRcode r RcodeFormatError, None, s))
   \<and> (Question r = q # qs \<and> pairOf L q = (d, t) \<and> cacheHit L F s (CacheKey d t) = None \<longrightarrow>
        (f_fetch F \<longrightarrow>
           HandleDNSRequest L F r s =
             (SetRcode r RcodeServerFailure, None,
              s\<lparr>accesses := accesses s @ [RedisGet (CacheKey d t), PgFetch d t]\<rparr>))
        \<and> (\<not> f_fetch F \<and> rowsFor d t s = [] \<longrightarrow>
           HandleDNSRequest L F r s =
             (SetRcode r RcodeNameError, None,
              s\<lparr>accesses := accesses s @ [RedisGet (CacheKey d t), PgFetch d t]\<rparr>))
        \<and> (\<not> f_fetch F \<and> rowsFor d t s \<noteq> [] \<longrightarrow>
           HandleDNSRequest L F r s =
             (RespondWithRecords L r (rowsFor d t s) q, Some (UpdateMetric d t False),
              s\<lparr>accesses := accesses s @ [RedisGet (CacheKey d t), PgFetch d t]\<rparr>)))
   \<and> (Question r = q # qs \<and> pairOf L q = (d, t) \<and> cacheHit L F s (CacheKey d t) = Some recs \<longrightarrow>
        HandleDNSRequest L F r s =
          (RespondWithRecords L r recs q, Some (UpdateMetric d t True),
           s\<lparr>accesses := accesses s @ [RedisGet (CacheKey d t)]\<rparr>))
   \<and> Rcode (fst (HandleDNSRequest L F r s))
        \<in> {RcodeSuccess, RcodeFormatError, RcodeServerFailure, RcodeNameError}
   \<and> (Rcode (fst (HandleDNSRequest L F r s)) \<noteq> RcodeSuccess \<longrightarrow>
        Answer (fst (HandleDNSRequest L F r s)) = [])"
proof (intro conjI impI)
  assume "Question r = []"
  then show "HandleDNSRequest L F r s = (SetRcode r RcodeFormatError, None, s)"
    by (rule Handle_no_question)
next
  assume a: "Question r = q # qs \<and> pairOf L q = (d, t) \<and> cacheHit L F s (CacheKey d t) = None"
  then have m: "HandleDNSRequest L F r s =
           (if f_fetch F then SetRcode r RcodeServerFailure
            else if rowsFor d t s = [] then SetRcode r RcodeNameError
            else RespondWithRecords L r (rowsFor d t s) q,
            if f_fetch F \<or> rowsFor d t s = [] then None else Some (UpdateMetric d t False),
            s\<lparr>accesses := accesses s @ [RedisGet (CacheKey d t), PgFetch d t]\<rparr>)"
    by (intro Handle_miss) simp_all
  { assume "f_fetch F"
    with m show "HandleDNSRequest L F r s =
             (SetRcode r RcodeServerFailure, None,
              s\<lparr>accesses := accesses s @ [RedisGet (CacheKey d t), PgFetch d t]\<rparr>)"
      by simp }
  { assume "\<not> f_fetch F \<and> rowsFor d t s = []"
    with m show "HandleDNSRequest L F r s =
             (SetRcode r RcodeNameError, None,
              s\<lparr>accesses := accesses s @ [RedisGet (CacheKey d t), PgFetch d t]\<rparr>)"
      by simp }
  { assume "\<not> f_fetch F \<and> rowsFor d t s \<noteq> []"
    with m show "HandleDNSRequest L F r s =
             (RespondWithRecords L r (rowsFor d t s) q, Some (UpdateMetric d t False),
              s\<lparr>accesses := accesses s @ [RedisGet (CacheKey d t), PgFetch d t]\<rparr>)"
      by simp }
next
  assume "Question r = q # qs \<and> pairOf L q = (d, t) \<and> cacheHit L F s (CacheKey d t) = Some recs"
  then show "HandleDNSRequest L F r s =
          (RespondWithRecords L r recs q, Some (UpdateMetric d t True),
           s\<lparr>accesses := accesses s @ [RedisGet (CacheKey d t)]\<rparr>)"
    by (intro Handle_hit) simp_all
next
  show "Rcode (fst (HandleDNSRequest L F r s))
        \<in> {RcodeSuccess, RcodeFormatError, RcodeServerFailure, RcodeNameError}"
  proof (cases "Question r")
    case Nil
    then show ?thesis
      by (simp add: Handle_no_question Rcode_SetRcode)
  next
    case (Cons q' qs')
    then show ?thesis
      by (simp add: Handle_question Let_def Rcode_SetRcode Rcode_RespondWithRecords
               split: option.splits)
  qed
next
  assume n: "Rcode (fst (HandleDNSRequest L F r s)) \<noteq> RcodeSuccess"
  show "Answer (fst (HandleDNSRequest L F r s)) = []"
  proof (cases "Question r")
    case Nil
    then show ?thesis
      by (simp add: Handle_no_question Answer_SetRcode)
  next
    case (Cons q' qs')
    with n show ?thesis
      by (simp add: Handle_question Let_def Answer_SetRcode Rcode_RespondWithRecords
               split: option.splits if_splits)
  qed
qed

lemmas sys_simps = sysA_def sysBadA_def sysCached_def sysCorrupt_def emptySys_def noFaults_def
  fetchFails_def query_def qA_def qAAAA_def noQuestion_def

lemma pairOf_qA: "pairOf lib0 qA = (''example.com'', ''A'')"
  by (simp add: pairOf_def qA_def str_simps lib0_simps)

lemma pairOf_qAAAA: "pairOf lib0 qAAAA = (''example.com'', ''AAAA'')"
  by (simp add: pairOf_def qAAAA_def str_simps lib0_simps)

lemma CacheKey_A: "CacheKey ''example.com'' ''A'' = ''dns:record:example.com:A''"
  by (simp add: CacheKey_def str_simps)

lemma answer_sampleA:
  "RespondWithRecords lib0 (query ''example.com.'' TypeA) [sampleA] qA =
     \<lparr>Question = [qA], Rcode = RcodeSuccess,
      Answer = [RR_A \<lparr>Name = ''example.com.'', Rrtype = TypeA, Class = ClassINET, Ttl = 300\<rparr>
                  (Some [203, 0, 113, 5])]\<rparr>"
  by (simp add: RespondWithRecords_def SetReply_def appendRecord_def mkHdr_def To4_def
      query_def qA_def str_simps lib0_simps)

theorem resolver_outcomes_witness:
  "HandleDNSRequest lib0 noFaults noQuestion sysA = (SetRcode noQuestion RcodeFormatError, None, sysA)
   \<and> Rcode (fst (HandleDNSRequest lib0 fetchFails (query ''example.com.'' TypeA) sysA))
        = RcodeServerFailure
   \<and> newAccesses sysA (snd (snd (HandleDNSRequest lib0 fetchFails (query ''example.com.'' TypeA) sysA)))
        = [RedisGet ''dns:record:example.com:A'', PgFetch ''example.com'' ''A'']
   \<and> Rcode (fst (HandleDNSRequest lib0 noFaults (query ''example.com.'' TypeAAAA) sysA))
        = RcodeNameError
   \<and> fst (HandleDNSRequest lib0 noFaults (query ''example.com.'' TypeA) sysA)
        = \<lparr>Question = [qA], Rcode = RcodeSuccess,
           Answer = [RR_A \<lparr>Name = ''example.com.'', Rrtype = TypeA, Class = ClassINET, Ttl = 300\<rparr>
                       (Some [203, 0, 113, 5])]\<rparr>
   \<and> fst (snd (HandleDNSRequest lib0 noFaults (query ''example.com.'' TypeA) sysCached))
        = Some (UpdateMetric ''example.com'' ''A'' True)"
proof -
  have q0: "Question noQuestion = []"
    by (simp add: noQuestion_def)
  have qa: "Question (query ''example.com.'' TypeA) = qA # []"
    by (simp add: query_def qA_def)
  have qaaaa: "Question (query ''example.com.'' TypeAAAA) = qAAAA # []"
    by (simp add: query_def qAAAA_def)
  have missA: "cacheHit lib0 F sysA k = None" for F k
    by (simp add: cacheHit_def sys_simps)
  have hit: "cacheHit lib0 noFaults sysCached (CacheKey ''example.com'' ''A'') = Some [sampleA]"
    by (simp add: cacheHit_def CacheKey_A sys_simps lib0_simps)
  have rowsA: "rowsFor ''example.com'' ''A'' sysA = [sampleA]"
    by (simp add: rowsFor_def sys_simps lib0_simps)
  have rowsAAAA: "rowsFor ''example.com'' ''AAAA'' sysA = []"
    by (simp add: rowsFor_def sys_simps lib0_simps)
  have ff: "f_fetch fetchFails" "\<not> f_fetch noFaults"
    by (simp_all add: sys_simps)
  have 1: "HandleDNSRequest lib0 noFaults noQuestion sysA
             = (SetRcode noQuestion RcodeFormatError, None, sysA)"
    using resolver_outcomes [of noQuestion lib0 noFaults sysA] q0 by blast
  have 2: "HandleDNSRequest lib0 fetchFails (query ''example.com.'' TypeA) sysA =
             (SetRcode (query ''example.com.'' TypeA) RcodeServerFailure, None,
              sysA\<lparr>accesses := accesses sysA @ [RedisGet (CacheKey ''example.com'' ''A''),
                                                PgFetch ''example.com'' ''A'']\<rparr>)"
    using resolver_outcomes [of "query ''example.com.'' TypeA" lib0 fetchFails sysA qA "[]"
        "''example.com''" "''A''"] qa pairOf_qA missA ff by blast
  have 3: "HandleDNSRequest lib0 noFaults (query ''example.com.'' TypeAAAA) sysA =
             (SetRcode (query ''example.com.'' TypeAAAA) RcodeNameError, None,
              sysA\<lparr>accesses := accesses sysA @ [RedisGet (CacheKey ''example.com'' ''AAAA''),
                                                PgFetch ''example.com'' ''AAAA'']\<rparr>)"
    using resolver_outcomes [of "query ''example.com.'' TypeAAAA" lib0 noFaults sysA qAAAA "[]"
        "''example.com''" "''AAAA''"] qaaaa pairOf_qAAAA missA ff rowsAAAA by blast
  have 4: "HandleDNSRequest lib0 noFaults (query ''example.com.'' TypeA) sysA =
             (RespondWithRecords lib0 (query ''example.com.'' TypeA)
                (rowsFor ''example.com'' ''A'' sysA) qA,
              Some (UpdateMetric ''example.com'' ''A'' False),
              sysA\<lparr>accesses := accesses sysA @ [RedisGet (CacheKey ''example.com'' ''A''),
                                                PgFetch ''example.com'' ''A'']\<rparr>)"
    using resolver_outcomes [of "query ''example.com.'' TypeA" lib0 noFaults sysA qA "[]"
        "''example.com''" "''A''"] qa pairOf_qA missA ff rowsA by (simp only:) blast
  have 5: "HandleDNSRequest lib0 noFaults (query ''example.com.'' TypeA) sysCached =
             (RespondWithRecords lib0 (query ''example.com.'' TypeA) [sampleA] qA,
              Some (UpdateMetric ''example.com'' ''A'' True),
              sysCached\<lparr>accesses := accesses sysCached @ [RedisGet (CacheKey ''example.com'' ''A'')]\<rparr>)"
    using resolver_outcomes [of "query ''example.com.'' TypeA" lib0 noFaults sysCached qA "[]"
        "''example.com''" "''A''" "[sampleA]"] qa pairOf_qA hit by blast
  show ?thesis
    by (simp add: 1 2 3 4 5 Rcode_SetRcode rowsA answer_sampleA CacheKey_A)
qed

lemma counted_fields [simp]:
  "Rdb (counted F d t s) = Rdb s" "dns_records (counted F d t s) = dns_records s"
  "now (counted F d t s) = now s"
  "accesses (counted F d t s) = accesses s @ [PgIncrement d t, PgHits d t]"
  by (simp_all add: counted_def)

lemma updateMetric_served:
  "updateMetric L F d t True s = counted F d t s"
  by (simp add: updateMetric_eq split: option.splits)

lemma updateMetric_below:
  "readBack F d t s = Some h \<Longrightarrow> h < minHits L \<Longrightarrow> updateMetric L F d t b s = counted F d t s"
  by (simp add: updateMetric_eq)

lemma serve_eq:
  "serve L F r s = (fst (HandleDNSRequest L F r s),
                    runTask L F (fst (snd (HandleDNSRequest L F r s)))
                      (snd (snd (HandleDNSRequest L F r s))))"
  by (simp add: serve_def split: prod.splits)

text \<open>
  Claim C4. A query answered from the cache: the handler's only access is the cache read
  (no \<^verbatim>\<open>FetchRecords\<close>), and the goroutine it starts has \<^verbatim>\<open>servedFromCache = true\<close>. Run to
  the end, the request has made exactly the cache read, the counter increment and the
  counter read; records and cache are as before. In general the policy with
  \<^verbatim>\<open>servedFromCache = true\<close> makes the two counter accesses only and leaves the cache as
  it is, whatever the counter.
\<close>

theorem cache_hit_no_store_lookup:
  assumes "Question r = q # qs" and "pairOf L q = (d, t)"
    and "cacheHit L F s (CacheKey d t) = Some recs"
  shows "fst (serve L F r s) = RespondWithRecords L r recs q
       \<and> newAccesses s (snd (snd (HandleDNSRequest L F r s))) = [RedisGet (CacheKey d t)]
       \<and> fst (snd (HandleDNSRequest L F r s)) = Some (UpdateMetric d t True)
       \<and> newAccesses s (snd (serve L F r s))
           = [RedisGet (CacheKey d t), PgIncrement d t, PgHits d t]
       \<and> Rdb (snd (serve L F r s)) = Rdb s
       \<and> dns_records (snd (serve L F r s)) = dns_records s
       \<and> newAccesses s' (updateMetric L F' d' t' True s') = [PgIncrement d' t', PgHits d' t']
       \<and> Rdb (updateMetric L F' d' t' True s') = Rdb s'"
proof -
  have h: "HandleDNSRequest L F r s =
           (RespondWithRecords L r recs q, Some (UpdateMetric d t True),
            s\<lparr>accesses := accesses s @ [RedisGet (CacheKey d t)]\<rparr>)"
    using assms by (rule Handle_hit)
  have u: "serve L F r s
             = (RespondWithRecords L r recs q,
                counted F d t (s\<lparr>accesses := accesses s @ [RedisGet (CacheKey d t)]\<rparr>))"
    by (simp add: serve_eq h runTask_def updateMetric_served)
  show ?thesis
    by (simp add: u h updateMetric_served newAccesses_def)
qed

theorem cache_hit_no_store_lookup_witness:
  "fst (serve lib0 noFaults (query ''example.com.'' TypeA) sysCached)
     = \<lparr>Question = [qA], Rcode = RcodeSuccess,
        Answer = [RR_A \<lparr>Name = ''example.com.'', Rrtype = TypeA, Class = ClassINET, Ttl = 300\<rparr>
                    (Some [203, 0, 113, 5])]\<rparr>
   \<and> newAccesses sysCached (snd (serve lib0 noFaults (query ''example.com.'' TypeA) sysCached))
       = [RedisGet ''dns:record:example.com:A'', PgIncrement ''example.com'' ''A'',
          PgHits ''example.com'' ''A'']
   \<and> Rdb (snd (serve lib0 noFaults (query ''example.com.'' TypeA) sysCached)) = Rdb sysCached"
proof -
  have qa: "Question (query ''example.com.'' TypeA) = qA # []"
    by (simp add: query_def qA_def)
  have hit: "cacheHit lib0 noFaults sysCached (CacheKey ''example.com'' ''A'') = Some [sampleA]"
    by (simp add: cacheHit_def CacheKey_A sys_simps lib0_simps)
  from cache_hit_no_store_lookup [OF qa pairOf_qA hit]
  show ?thesis
    by (simp add: answer_sampleA CacheKey_A)
qed

lemma cacheHit_undecodable:
  "Rdb s key = Some (v, expiry) \<Longrightarrow> Unmarshal L v = None \<Longrightarrow> cacheHit L F s key = None"
  by (simp add: cacheHit_def)

lemma cacheHit_absent: "Rdb s key = None \<Longrightarrow> cacheHit L F s key = None"
  by (simp add: cacheHit_def)

lemma readBack_Rdb [simp]: "readBack F d t (s\<lparr>Rdb := R\<rparr>) = readBack F d t s"
  by (simp add: readBack_eq)

lemma rowsFor_Rdb [simp]: "rowsFor d t (s\<lparr>Rdb := R\<rparr>) = rowsFor d t s"
  by (simp add: rowsFor_def)

lemma rowsFor_accesses [simp]: "rowsFor d t (s\<lparr>accesses := a\<rparr>) = rowsFor d t s"
  by (simp add: rowsFor_def)

lemma readBack_accesses [simp]: "readBack F d t (s\<lparr>accesses := a\<rparr>) = readBack F d t s"
  by (simp add: readBack_eq)

lemma updateMetric_metrics:
  "dns_metrics (updateMetric L F d t b s)
     = (dns_metrics s)((d, t) := counterAfter (f_incr F) (dns_metrics s (d, t)))"
  by (simp add: updateMetric_eq counted_def record_io_def RdbSet_def split: option.splits)

lemma updateMetric_Rdb_forget:
  "(Rdb (updateMetric L F d t b (s\<lparr>accesses := a\<rparr>)))(CacheKey d t := None)
     = (Rdb (updateMetric L F d t b (s\<lparr>Rdb := (Rdb s)(CacheKey d t := None), accesses := a\<rparr>)))
         (CacheKey d t := None)"
  by (simp add: updateMetric_eq counted_def record_io_def RdbSet_def split: option.splits)

text \<open>
  Claim C6. A cache key that is present with a value \<^verbatim>\<open>json.Unmarshal\<close> rejects: the
  request is handled as in the state where the key is absent. The response and the
  goroutine started are the same, the handler goes on to \<^verbatim>\<open>FetchRecords\<close> (its accesses
  are the cache read and the store lookup), the response code is the one of the store path
  and never reports the decoding error, and after promotion the hit counters agree and the
  caches agree outside the key.
\<close>

theorem undecodable_entry_is_miss:
  assumes "Question r = q # qs" and "pairOf L q = (d, t)"
    and "Rdb s (CacheKey d t) = Some (v, expiry)" and "Unmarshal L v = None"
  shows "fst (HandleDNSRequest L F r s)
           = fst (HandleDNSRequest L F r (s\<lparr>Rdb := (Rdb s)(CacheKey d t := None)\<rparr>))
       \<and> fst (snd (HandleDNSRequest L F r s))
           = fst (snd (HandleDNSRequest L F r (s\<lparr>Rdb := (Rdb s)(CacheKey d t := None)\<rparr>)))
       \<and> newAccesses s (snd (snd (HandleDNSRequest L F r s)))
           = [RedisGet (CacheKey d t), PgFetch d t]
       \<and> Rcode (fst (HandleDNSRequest L F r s))
           = (if f_fetch F then RcodeServerFailure
              else if rowsFor d t s = [] then RcodeNameError else RcodeSuccess)
       \<and> fst (serve L F r s)
           = fst (serve L F r (s\<lparr>Rdb := (Rdb s)(CacheKey d t := None)\<rparr>))
       \<and> dns_metrics (snd (serve L F r s))
           = dns_metrics (snd (serve L F r (s\<lparr>Rdb := (Rdb s)(CacheKey d t := None)\<rparr>)))
       \<and> (Rdb (snd (serve L F r s)))(CacheKey d t := None)
           = (Rdb (snd (serve L F r (s\<lparr>Rdb := (Rdb s)(CacheKey d t := None)\<rparr>))))
               (CacheKey d t := None)"
proof -
  let ?s0 = "s\<lparr>Rdb := (Rdb s)(CacheKey d t := None)\<rparr>"
  let ?a = "accesses s @ [RedisGet (CacheKey d t), PgFetch d t]"
  have m: "cacheHit L F s (CacheKey d t) = None"
    using assms(3,4) by (rule cacheHit_undecodable)
  have m0: "cacheHit L F ?s0 (CacheKey d t) = None"
    by (rule cacheHit_absent) simp
  note h = Handle_miss [OF assms(1,2) m] and h0 = Handle_miss [OF assms(1,2) m0]
  have 1: "fst (HandleDNSRequest L F r s) = fst (HandleDNSRequest L F r ?s0)"
    by (simp add: h h0)
  have 2: "fst (snd (HandleDNSRequest L F r s)) = fst (snd (HandleDNSRequest L F r ?s0))"
    by (simp add: h h0)
  have 3: "newAccesses s (snd (snd (HandleDNSRequest L F r s)))
             = [RedisGet (CacheKey d t), PgFetch d t]"
    by (simp add: h)
  have 4: "Rcode (fst (HandleDNSRequest L F r s))
           = (if f_fetch F then RcodeServerFailure
              else if rowsFor d t s = [] then RcodeNameError else RcodeSuccess)"
    by (simp add: h Rcode_SetRcode Rcode_RespondWithRecords)
  have 5: "fst (serve L F r s) = fst (serve L F r ?s0)"
    by (simp add: serve_eq 1)
  have s: "snd (serve L F r s)
             = (if f_fetch F \<or> rowsFor d t s = [] then s\<lparr>accesses := ?a\<rparr>
                else updateMetric L F d t False (s\<lparr>accesses := ?a\<rparr>))"
    by (simp add: serve_eq h runTask_def)
  have s0: "snd (serve L F r ?s0)
             = (if f_fetch F \<or> rowsFor d t s = [] then ?s0\<lparr>accesses := ?a\<rparr>
                else updateMetric L F d t False (?s0\<lparr>accesses := ?a\<rparr>))"
    by (simp add: serve_eq h0 runTask_def)
  have 6: "dns_metrics (snd (serve L F r s)) = dns_metrics (snd (serve L F r ?s0))"
    by (simp add: s s0 updateMetric_metrics)
  have 7: "(Rdb (snd (serve L F r s)))(CacheKey d t := None)
             = (Rdb (snd (serve L F r ?s0)))(CacheKey d t := None)"
  proof (cases "f_fetch F \<or> rowsFor d t s = []")
    case True
    then show ?thesis
      by (simp add: s s0)
  next
    case False
    then show ?thesis
      using updateMetric_Rdb_forget [where L = L and F = F and d = d and t = t and b = False and s = s and a = ?a]
      by (simp add: s s0)
  qed
  from 1 2 3 4 5 6 7 show ?thesis
    by (intro conjI)
qed

theorem undecodable_entry_is_miss_witness:
  "fst (serve lib0 noFaults (query ''example.com.'' TypeA) sysCorrupt)
     = fst (serve lib0 noFaults (query ''example.com.'' TypeA) sysA)
   \<and> Rcode (fst (HandleDNSRequest lib0 noFaults (query ''example.com.'' TypeA) sysCorrupt))
       = RcodeSuccess
   \<and> newAccesses sysCorrupt
        (snd (snd (HandleDNSRequest lib0 noFaults (query ''example.com.'' TypeA) sysCorrupt)))
       = [RedisGet ''dns:record:example.com:A'', PgFetch ''example.com'' ''A'']"
proof -
  have qa: "Question (query ''example.com.'' TypeA) = qA # []"
    by (simp add: query_def qA_def)
  have c: "Rdb sysCorrupt (CacheKey ''example.com'' ''A'') = Some (''{'', Hour)"
    by (simp add: CacheKey_A sys_simps)
  have u: "Unmarshal lib0 ''{'' = None"
    by (simp add: lib0_simps)
  have e: "sysCorrupt\<lparr>Rdb := (Rdb sysCorrupt)(''dns:record:example.com:A'' := None)\<rparr> = sysA"
    by (simp add: sys_simps)
  have r: "rowsFor ''example.com'' ''A'' sysCorrupt = [sampleA]"
    by (simp add: rowsFor_def sys_simps lib0_simps)
  have f: "\<not> f_fetch noFaults"
    by (simp add: noFaults_def)
  note t = undecodable_entry_is_miss [OF qa pairOf_qA c u, of noFaults]
  have rc: "(if f_fetch noFaults then RcodeServerFailure
             else if [sampleA] = [] then RcodeNameError else RcodeSuccess) = RcodeSuccess"
    by (simp add: f)
  from t [unfolded CacheKey_A e r rc] show ?thesis
    by blast
qed

text \<open>
  Claim C1, as stated, fails: the store holds an A row for \<^verbatim>\<open>example.com\<close> and no AAAA
  row, the cache is empty, and the AAAA query is answered NameError, because
  \<^verbatim>\<open>FetchRecords\<close> selects on domain and qtype together.
\<close>

theorem other_type_rows_counterexample:
  "rowsOfDomain ''example.com'' sysA = [sampleA]
   \<and> rowsFor ''example.com'' ''AAAA'' sysA = []
   \<and> pairOf lib0 qAAAA = (''example.com'', ''AAAA'')
   \<and> fst (HandleDNSRequest lib0 noFaults (query ''example.com.'' TypeAAAA) sysA)
       = \<lparr>Question = [qAAAA], Rcode = RcodeNameError, Answer = []\<rparr>
   \<and> Rcode (fst (serve lib0 noFaults (query ''example.com.'' TypeAAAA) sysA)) \<noteq> RcodeSuccess"
proof -
  have qaaaa: "Question (query ''example.com.'' TypeAAAA) = qAAAA # []"
    by (simp add: query_def qAAAA_def)
  have miss: "cacheHit lib0 noFaults sysA (CacheKey ''example.com'' ''AAAA'') = None"
    by (simp add: cacheHit_def sys_simps)
  have rows: "rowsFor ''example.com'' ''AAAA'' sysA = []"
    by (simp add: rowsFor_def sys_simps lib0_simps)
  have dom: "rowsOfDomain ''example.com'' sysA = [sampleA]"
    by (simp add: rowsOfDomain_def sys_simps lib0_simps)
  have f: "\<not> f_fetch noFaults"
    by (simp add: noFaults_def)
  have m: "SetRcode (query ''example.com.'' TypeAAAA) RcodeNameError
             = \<lparr>Question = [qAAAA], Rcode = RcodeNameError, Answer = []\<rparr>"
    by (simp add: SetRcode_def SetReply_def query_def qAAAA_def)
  from Handle_miss [OF qaaaa pairOf_qAAAA miss]
  have h: "fst (HandleDNSRequest lib0 noFaults (query ''example.com.'' TypeAAAA) sysA)
             = \<lparr>Question = [qAAAA], Rcode = RcodeNameError, Answer = []\<rparr>"
    by (simp add: f rows m)
  then have "Rcode (fst (serve lib0 noFaults (query ''example.com.'' TypeAAAA) sysA)) \<noteq> RcodeSuccess"
    by (simp add: serve_eq)
  with dom rows pairOf_qAAAA h show ?thesis
    by (intro conjI)
qed

text \<open>
  Claim C1, amended. On a cache miss without a store error, the response is NameError
  exactly when the store has no row with that domain and that qtype; rows of the domain
  with another type do not prevent it. With at least one such row the response is the
  synthesized success message, whether or not the synthesizer kept an answer: the decision
  is not taken again after synthesis.
\<close>

theorem NameError_iff_no_rows_for_pair:
  assumes "Question r = q # qs" and "pairOf L q = (d, t)"
    and "cacheHit L F s (CacheKey d t) = None" and "\<not> f_fetch F"
  shows "(rowsFor d t s = [] \<longrightarrow> fst (serve L F r s) = SetRcode r RcodeNameError)
       \<and> (rowsFor d t s \<noteq> [] \<longrightarrow>
            fst (serve L F r s) = RespondWithRecords L r (rowsFor d t s) q
            \<and> Rcode (fst (serve L F r s)) = RcodeSuccess)
       \<and> (Rcode (fst (serve L F r s)) = RcodeNameError \<longleftrightarrow> rowsFor d t s = [])"
  using Handle_miss [OF assms(1-3)] assms(4)
  by (simp add: serve_eq Rcode_SetRcode Rcode_RespondWithRecords)

theorem NameError_iff_no_rows_for_pair_witness:
  "rowsOfDomain ''example.com'' sysA \<noteq> []
   \<and> fst (serve lib0 noFaults (query ''example.com.'' TypeAAAA) sysA)
       = SetRcode (query ''example.com.'' TypeAAAA) RcodeNameError
   \<and> rowsFor ''example.com'' ''A'' sysBadA = [badA]
   \<and> Rcode (fst (serve lib0 noFaults (query ''example.com.'' TypeA) sysBadA)) = RcodeSuccess
   \<and> Answer (fst (serve lib0 noFaults (query ''example.com.'' TypeA) sysBadA)) = []"
proof -
  have qa: "Question (query ''example.com.'' TypeA) = qA # []"
    by (simp add: query_def qA_def)
  have qaaaa: "Question (query ''example.com.'' TypeAAAA) = qAAAA # []"
    by (simp add: query_def qAAAA_def)
  have miss: "cacheHit lib0 noFaults sysA k = None" "cacheHit lib0 noFaults sysBadA k = None" for k
    by (simp_all add: cacheHit_def sys_simps)
  have rows: "rowsFor ''example.com'' ''AAAA'' sysA = []"
    by (simp add: rowsFor_def sys_simps lib0_simps)
  have rowsB: "rowsFor ''example.com'' ''A'' sysBadA = [badA]"
    by (simp add: rowsFor_def sys_simps badA_def)
  have dom: "rowsOfDomain ''example.com'' sysA \<noteq> []"
    by (simp add: rowsOfDomain_def sys_simps lib0_simps)
  have f: "\<not> f_fetch noFaults"
    by (simp add: noFaults_def)
  have a: "Answer (RespondWithRecords lib0 (query ''example.com.'' TypeA) [badA] qA) = []"
    by (simp add: RespondWithRecords_def appendRecord_def To4_def badA_def qA_def
          str_simps lib0_simps)
  have 1: "fst (serve lib0 noFaults (query ''example.com.'' TypeAAAA) sysA)
             = SetRcode (query ''example.com.'' TypeAAAA) RcodeNameError"
    using NameError_iff_no_rows_for_pair [OF qaaaa pairOf_qAAAA miss(1) f] rows by blast
  have 2: "fst (serve lib0 noFaults (query ''example.com.'' TypeA) sysBadA)
             = RespondWithRecords lib0 (query ''example.com.'' TypeA) [badA] qA
           \<and> Rcode (fst (serve lib0 noFaults (query ''example.com.'' TypeA) sysBadA)) = RcodeSuccess"
    using NameError_iff_no_rows_for_pair [OF qa pairOf_qA miss(2) f] rowsB
    by (simp add: Rcode_RespondWithRecords)
  from dom 1 rowsB 2 a show ?thesis
    by (simp add: Rcode_RespondWithRecords)
qed

subsection \<open>Record upsert\<close>

lemma sameTriple_triple: "sameTriple r x \<longleftrightarrow> triple x = triple r"
  by (auto simp: sameTriple_def triple_def)

lemma list_ex_sameTriple: "list_ex (sameTriple r) rows \<longleftrightarrow> triple r \<in> set (map triple rows)"
  by (induction rows) (auto simp: sameTriple_triple)

lemma sameTriple_TTL_update [simp]: "sameTriple r (x\<lparr>TTL := v\<rparr>) = sameTriple r x"
  by (simp add: sameTriple_def)

lemma triple_TTL_update [simp]: "triple (x\<lparr>TTL := v\<rparr>) = triple x"
  by (simp add: triple_def)

lemma map_triple_upsert:
  "map triple (upsert r rows) =
     (if list_ex (sameTriple r) rows then map triple rows else map triple rows @ [triple r])"
  by (simp add: upsert_def o_def if_distrib cong: if_cong)

lemma distinct_upsert:
  "distinct (map triple rows) \<Longrightarrow> distinct (map triple (upsert r rows))"
  by (simp add: map_triple_upsert list_ex_sameTriple)

lemma filter_others_upsert:
  "filter (\<lambda>x. \<not> sameTriple r x) (upsert r rows) = filter (\<lambda>x. \<not> sameTriple r x) rows"
proof -
  have "filter (\<lambda>x. \<not> sameTriple r x) (map (\<lambda>x. if sameTriple r x then x\<lparr>TTL := TTL r\<rparr> else x) rows)
          = filter (\<lambda>x. \<not> sameTriple r x) rows"
    by (induction rows) (auto simp: sameTriple_triple)
  then show ?thesis
    by (simp add: upsert_def sameTriple_triple)
qed

lemma filter_same_absent:
  "\<not> list_ex (sameTriple r) rows \<Longrightarrow> filter (sameTriple r) rows = []"
  by (induction rows) auto

lemma TTL_same_updated:
  assumes "distinct (map triple rows)" and "list_ex (sameTriple r) rows"
  shows "map TTL (filter (sameTriple r)
                    (map (\<lambda>x. if sameTriple r x then x\<lparr>TTL := TTL r\<rparr> else x) rows)) = [TTL r]"
  using assms
proof (induction rows)
  case Nil
  then show ?case by simp
next
  case (Cons x xs)
  show ?case
  proof (cases "sameTriple r x")
    case True
    with Cons.prems(1) have "triple r \<notin> set (map triple xs)"
      by (simp add: sameTriple_triple)
    then have "\<forall>y \<in> set xs. \<not> sameTriple r y"
      using list_ex_sameTriple [of r xs] by (simp add: list_ex_iff)
    then have "filter (sameTriple r)
                 (map (\<lambda>x. if sameTriple r x then x\<lparr>TTL := TTL r\<rparr> else x) xs) = []"
      by (induction xs) auto
    with True show ?thesis
      by simp
  next
    case False
    with Cons show ?thesis
      by simp
  qed
qed

lemma TTL_same_upsert:
  assumes "distinct (map triple rows)"
  shows "map TTL (filter (sameTriple r) (upsert r rows)) = [TTL r]"
proof (cases "list_ex (sameTriple r) rows")
  case True
  with assms show ?thesis
    by (simp add: upsert_def TTL_same_updated)
next
  case False
  then show ?thesis
    by (simp add: upsert_def filter_same_absent sameTriple_def)
qed

lemma upsert_idem: "upsert r (upsert r rows) = upsert r rows"
proof (cases "list_ex (sameTriple r) rows")
  case True
  then have "list_ex (sameTriple r) (upsert r rows)"
    by (simp add: list_ex_sameTriple map_triple_upsert)
  with True show ?thesis
    by (auto simp: upsert_def sameTriple_triple)
next
  case False
  then have n: "\<forall>x \<in> set rows. \<not> sameTriple r x"
    by (simp add: list_ex_iff)
  have e: "list_ex (sameTriple r) (rows @ [r])"
    by (simp add: sameTriple_def)
  from n have "map (\<lambda>x. if sameTriple r x then x\<lparr>TTL := TTL r\<rparr> else x) rows = rows"
    by (induction rows) auto
  with False e show ?thesis
    by (simp add: upsert_def sameTriple_def)
qed

lemma AddRecord_ok:
  "fitsInt4 (TTL r) \<Longrightarrow>
     AddRecord False r s
       = (Inr (), s\<lparr>dns_records := upsert r (dns_records s), accesses := accesses s @ [PgUpsert r]\<rparr>)"
  by (simp add: AddRecord_def record_io_def)

lemma AddRecords_same_triple:
  assumes "rs \<noteq> []" and "\<forall>x \<in> set rs. sameTriple r x \<and> fitsInt4 (TTL x)"
    and "distinct (map triple (dns_records s))"
  shows "map TTL (filter (sameTriple r) (dns_records (AddRecords rs s))) = [TTL (last rs)]
         \<and> distinct (map triple (dns_records (AddRecords rs s)))"
  using assms
proof (induction rs arbitrary: s)
  case Nil
  then show ?case by simp
next
  case (Cons x xs)
  let ?s1 = "snd (AddRecord False x s)"
  from Cons.prems(2) have x: "sameTriple r x" "fitsInt4 (TTL x)"
    by simp_all
  have rows1: "dns_records ?s1 = upsert x (dns_records s)"
    by (simp add: AddRecord_ok x(2))
  have d1: "distinct (map triple (dns_records ?s1))"
    by (simp add: rows1 distinct_upsert Cons.prems(3))
  have same: "sameTriple r = sameTriple x"
    using x(1) by (auto simp: sameTriple_triple fun_eq_iff)
  show ?case
  proof (cases "xs = []")
    case True
    then show ?thesis
      using TTL_same_upsert [OF Cons.prems(3), of x] d1
      by (simp add: rows1 same)
  next
    case False
    with Cons.IH [of ?s1] Cons.prems(2) d1 show ?thesis
      by simp
  qed
qed

text \<open>
  Claim C9. \<^verbatim>\<open>AddRecord\<close> is idempotent. On a table that satisfies its
  \<^verbatim>\<open>UNIQUE(domain, qtype, value)\<close> constraint, an accepted write keeps the constraint,
  leaves exactly one row for the triple, with the TTL written, leaves every other row as it
  was, and adds no row when the triple was present; a rejected write changes nothing.
  Hence after any non-empty sequence of accepted writes of one triple the table has exactly
  one row for it, with the TTL of the last write.
\<close>

theorem upsert_one_row_last_TTL:
  "upsert r (upsert r rows) = upsert r rows
   \<and> (distinct (map triple rows) \<longrightarrow>
        distinct (map triple (upsert r rows))
        \<and> map TTL (filter (sameTriple r) (upsert r rows)) = [TTL r]
        \<and> filter (\<lambda>x. \<not> sameTriple r x) (upsert r rows) = filter (\<lambda>x. \<not> sameTriple r x) rows
        \<and> (list_ex (sameTriple r) rows \<longrightarrow> length (upsert r rows) = length rows))
   \<and> (fitsInt4 (TTL r) \<longrightarrow>
        fst (AddRecord False r s) = Inr ()
        \<and> dns_records (snd (AddRecord False r s)) = upsert r (dns_records s))
   \<and> (fails \<or> \<not> fitsInt4 (TTL r) \<longrightarrow>
        fst (AddRecord fails r s) = Inl PgError
        \<and> dns_records (snd (AddRecord fails r s)) = dns_records s)
   \<and> (rs \<noteq> [] \<and> (\<forall>x \<in> set rs. sameTriple r x \<and> fitsInt4 (TTL x))
        \<and> distinct (map triple (dns_records s)) \<longrightarrow>
        map TTL (filter (sameTriple r) (dns_records (AddRecords rs s))) = [TTL (last rs)]
        \<and> distinct (map triple (dns_records (AddRecords rs s))))"
proof (intro conjI impI)
  show "upsert r (upsert r rows) = upsert r rows"
    by (rule upsert_idem)
next
  assume d: "distinct (map triple rows)"
  then show "distinct (map triple (upsert r rows))"
    by (rule distinct_upsert)
  from d show "map TTL (filter (sameTriple r) (upsert r rows)) = [TTL r]"
    by (rule TTL_same_upsert)
  show "filter (\<lambda>x. \<not> sameTriple r x) (upsert r rows) = filter (\<lambda>x. \<not> sameTriple r x) rows"
    by (rule filter_others_upsert)
  assume "list_ex (sameTriple r) rows"
  then show "length (upsert r rows) = length rows"
    by (simp add: upsert_def)
next
  assume f: "fitsInt4 (TTL r)"
  then show "fst (AddRecord False r s) = Inr ()"
    by (simp add: AddRecord_ok)
  from f show "dns_records (snd (AddRecord False r s)) = upsert r (dns_records s)"
    by (simp add: AddRecord_ok)
next
  assume f: "fails \<or> \<not> fitsInt4 (TTL r)"
  then show "fst (AddRecord fails r s) = Inl PgError"
    by (auto simp: AddRecord_def)
  from f show "dns_records (snd (AddRecord fails r s)) = dns_records s"
    by (auto simp: AddRecord_def record_io_def)
next
  assume a: "rs \<noteq> [] \<and> (\<forall>x \<in> set rs. sameTriple r x \<and> fitsInt4 (TTL x))
        \<and> distinct (map triple (dns_records s))"
  then have 1: "rs \<noteq> []" and 2: "\<forall>x \<in> set rs. sameTriple r x \<and> fitsInt4 (TTL x)"
    and 3: "distinct (map triple (dns_records s))"
    by simp_all
  from AddRecords_same_triple [OF 1 2 3]
  show "map TTL (filter (sameTriple r) (dns_records (AddRecords rs s))) = [TTL (last rs)]"
    and "distinct (map triple (dns_records (AddRecords rs s)))"
    by simp_all
qed

theorem upsert_one_row_last_TTL_witness:
  "dns_records (AddRecords [sampleA, sampleA600] emptySys) = [sampleA600]
   \<and> map TTL (filter (sameTriple sampleA) (dns_records (AddRecords [sampleA, sampleA600] emptySys)))
       = [600]
   \<and> upsert sampleA600 [sampleA, sampleTXT] = [sampleA600, sampleTXT]"
proof -
  have f: "fitsInt4 300" "fitsInt4 600"
    by (simp_all add: fitsInt4_def)
  have e: "dns_records (AddRecords [sampleA, sampleA600] emptySys) = [sampleA600]"
    by (simp add: AddRecord_def upsert_def sameTriple_def record_io_def f
          sampleA600_def sampleA_def emptySys_def)
  have u: "upsert sampleA600 [sampleA, sampleTXT] = [sampleA600, sampleTXT]"
    by (simp add: upsert_def sameTriple_def sampleA600_def sampleA_def sampleTXT_def)
  have h: "[sampleA, sampleA600] \<noteq> []
           \<and> (\<forall>x \<in> set [sampleA, sampleA600]. sameTriple sampleA x \<and> fitsInt4 (TTL x))
           \<and> distinct (map triple (dns_records emptySys))"
    by (simp add: sameTriple_def sampleA600_def sampleA_def emptySys_def f)
  have l: "TTL (last [sampleA, sampleA600]) = 600"
    by (simp add: sampleA600_def)
  from upsert_one_row_last_TTL [of sampleA "[]" emptySys False "[sampleA, sampleA600]"] h
  have "map TTL (filter (sameTriple sampleA) (dns_records (AddRecords [sampleA, sampleA600] emptySys)))
          = [TTL (last [sampleA, sampleA600])]"
    by blast
  with e u l show ?thesis
    by simp
qed

subsection \<open>Promotion policy over runs\<close>

lemma updateMetric_accesses:
  "accesses (updateMetric L F d t b s) =
     accesses s @ [PgIncrement d t, PgHits d t] @
       (case readBack F d t s of
          None \<Rightarrow> []
        | Some h \<Rightarrow>
            if h < minHits L \<or> b then []
            else PgFetch d t #
                 (if f_refetch F \<or> rowsFor d t s = [] then []
                  else [RedisSet (CacheKey d t) (Marshal L (rowsFor d t s))]))"
  by (simp add: updateMetric_eq record_io_def RdbSet_def split: option.splits)

lemma updateMetric_Rdb_eq:
  "Rdb (updateMetric L F d t b s) =
     (case readBack F d t s of
        None \<Rightarrow> Rdb s
      | Some h \<Rightarrow>
          if h < minHits L \<or> b \<or> f_refetch F \<or> rowsFor d t s = [] \<or> f_set F then Rdb s
          else (Rdb s)(CacheKey d t \<mapsto> (Marshal L (rowsFor d t s), now s + Hour)))"
  by (simp add: updateMetric_eq record_io_def RdbSet_def split: option.splits)

lemma updateMetric_now [simp]: "now (updateMetric L F d t b s) = now s"
  by (simp add: updateMetric_eq record_io_def RdbSet_def split: option.splits)

lemma updateMetric_records [simp]: "dns_records (updateMetric L F d t b s) = dns_records s"
  by (simp add: updateMetric_eq record_io_def RdbSet_def split: option.splits)

lemma readBack_after:
  "readBack F d t s = Some h \<Longrightarrow> dns_metrics (updateMetric L F d t b s) (d, t) = Some h"
  by (simp add: updateMetric_metrics readBack_eq split: if_splits)

text \<open>The state a request leaves, by cases on the cache lookup and the store lookup.\<close>

lemma serve_state:
  assumes "Question r = q # qs" and "pairOf L q = (d, t)"
  shows "snd (serve L F r s) =
     (case cacheHit L F s (CacheKey d t) of
        Some recs \<Rightarrow> counted F d t (s\<lparr>accesses := accesses s @ [RedisGet (CacheKey d t)]\<rparr>)
      | None \<Rightarrow>
          if f_fetch F \<or> rowsFor d t s = []
          then s\<lparr>accesses := accesses s @ [RedisGet (CacheKey d t), PgFetch d t]\<rparr>
          else updateMetric L F d t False
                 (s\<lparr>accesses := accesses s @ [RedisGet (CacheKey d t), PgFetch d t]\<rparr>))"
proof (cases "cacheHit L F s (CacheKey d t)")
  case None
  from Handle_miss [OF assms None] show ?thesis
    by (simp add: serve_eq runTask_def None)
next
  case (Some recs)
  from Handle_hit [OF assms Some] show ?thesis
    by (simp add: serve_eq runTask_def Some updateMetric_served)
qed

lemma serve_no_question: "Question r = [] \<Longrightarrow> snd (serve L F r s) = s"
  by (simp add: serve_eq Handle_no_question runTask_def)

lemma counterAfter_mono:
  "c = Some h \<Longrightarrow> \<exists>h'. counterAfter fails c = Some h' \<and> h \<le> h'"
  by (simp add: counterAfter_def)

lemma serve_metrics:
  "dns_metrics (snd (serve L F r s)) = dns_metrics s
   \<or> (\<exists>q qs. Question r = q # qs
        \<and> dns_metrics (snd (serve L F r s))
            = (dns_metrics s)(pairOf L q := counterAfter (f_incr F) (dns_metrics s (pairOf L q))))"
proof (cases "Question r")
  case Nil
  then show ?thesis
    by (simp add: serve_no_question)
next
  case (Cons q qs)
  obtain d t where p: "pairOf L q = (d, t)"
    by (cases "pairOf L q")
  show ?thesis
    using Cons
    by (simp add: serve_state [OF Cons p] p updateMetric_metrics counted_def split: option.splits)
qed

lemma step_metrics_mono:
  assumes "dns_metrics s p = Some h"
  shows "\<exists>h'. dns_metrics (step L e s) p = Some h' \<and> h \<le> h'"
proof (cases e)
  case (Query F r)
  from serve_metrics [of L F r s] show ?thesis
  proof
    assume "dns_metrics (snd (serve L F r s)) = dns_metrics s"
    with assms Query show ?thesis by simp
  next
    assume "\<exists>q qs. Question r = q # qs
        \<and> dns_metrics (snd (serve L F r s))
            = (dns_metrics s)(pairOf L q := counterAfter (f_incr F) (dns_metrics s (pairOf L q)))"
    then obtain q where m: "dns_metrics (snd (serve L F r s))
            = (dns_metrics s)(pairOf L q := counterAfter (f_incr F) (dns_metrics s (pairOf L q)))"
      by blast
    show ?thesis
    proof (cases "p = pairOf L q")
      case True
      with counterAfter_mono [of "dns_metrics s p" h "f_incr F"] assms m Query show ?thesis
        by simp
    next
      case False
      with assms m Query show ?thesis by simp
    qed
  qed
next
  case (Elapse n)
  with assms show ?thesis by simp
qed

lemma run_metrics_mono:
  "dns_metrics s p = Some h \<Longrightarrow> \<exists>h'. dns_metrics (run L es s) p = Some h' \<and> h \<le> h'"
proof (induction es arbitrary: s h)
  case Nil
  then show ?case by simp
next
  case (Cons e es)
  from step_metrics_mono [OF Cons.prems, of L e]
  obtain h1 where h1: "dns_metrics (step L e s) p = Some h1" "h \<le> h1"
    by blast
  from Cons.IH [OF h1(1)] h1(2) show ?case
    by fastforce
qed

lemma belowThreshold_earlier:
  "belowThreshold L (run L es s) p \<Longrightarrow> belowThreshold L s p"
proof (cases "dns_metrics s p")
  case None
  then show ?thesis by (simp add: belowThreshold_def)
next
  case (Some h)
  assume b: "belowThreshold L (run L es s) p"
  from run_metrics_mono [OF Some, of L es]
  obtain h' where "dns_metrics (run L es s) p = Some h'" "h \<le> h'"
    by blast
  with b Some show ?thesis
    by (simp add: belowThreshold_def)
qed

lemma serve_accesses_prefix: "\<exists>xs. accesses (snd (serve L F r s)) = accesses s @ xs"
proof (cases "Question r")
  case Nil
  then show ?thesis by (simp add: serve_no_question)
next
  case (Cons q qs)
  obtain d t where p: "pairOf L q = (d, t)"
    by (cases "pairOf L q")
  show ?thesis
    by (simp add: serve_state [OF Cons p] updateMetric_accesses split: option.splits)
qed

lemma step_accesses_prefix: "\<exists>xs. accesses (step L e s) = accesses s @ xs"
  by (cases e) (simp_all add: serve_accesses_prefix)

lemma run_accesses_prefix: "\<exists>xs. accesses (run L es s) = accesses s @ xs"
proof (induction es arbitrary: s)
  case Nil
  then show ?case by simp
next
  case (Cons e es)
  from step_accesses_prefix [of L e s] obtain xs where "accesses (step L e s) = accesses s @ xs"
    by blast
  moreover from Cons.IH [of "step L e s"]
  obtain ys where "accesses (run L es (step L e s)) = accesses (step L e s) @ ys"
    by blast
  ultimately show ?case by simp
qed

lemma newAccesses_trans:
  assumes "\<exists>xs. accesses s1 = accesses s @ xs" and "\<exists>ys. accesses s2 = accesses s1 @ ys"
  shows "newAccesses s s2 = newAccesses s s1 @ newAccesses s1 s2"
  using assms by (auto simp: newAccesses_def)

lemma cacheWrite_trans:
  assumes "\<exists>xs. accesses s1 = accesses s @ xs" and "\<exists>ys. accesses s2 = accesses s1 @ ys"
  shows "cacheWrite s s2 \<longleftrightarrow> cacheWrite s s1 \<or> cacheWrite s1 s2"
  by (simp add: cacheWrite_def newAccesses_trans [OF assms])

lemma cacheWrite_run_Cons:
  "cacheWrite s (run L (e # es) s)
     \<longleftrightarrow> cacheWrite s (step L e s) \<or> cacheWrite (step L e s) (run L es (step L e s))"
  using cacheWrite_trans [OF step_accesses_prefix [of L e s]
      run_accesses_prefix [of L es "step L e s"]] by simp

lemma cacheWrite_refl [simp]: "\<not> cacheWrite s s"
  by (simp add: cacheWrite_def newAccesses_def)

lemma serve_below_no_write:
  assumes "Question r = q # qs"
    and "belowThreshold L (snd (serve L F r s)) (pairOf L q)"
  shows "Rdb (snd (serve L F r s)) = Rdb s \<and> \<not> cacheWrite s (snd (serve L F r s))"
proof -
  obtain d t where p: "pairOf L q = (d, t)"
    by (cases "pairOf L q")
  let ?s1 = "s\<lparr>accesses := accesses s @ [RedisGet (CacheKey d t), PgFetch d t]\<rparr>"
  note st = serve_state [OF assms(1) p, of F s]
  show ?thesis
  proof (cases "cacheHit L F s (CacheKey d t) = None \<and> \<not> (f_fetch F \<or> rowsFor d t s = [])")
    case False
    with st show ?thesis
      by (auto simp: cacheWrite_def newAccesses_def split: option.splits)
  next
    case True
    with st have e: "snd (serve L F r s) = updateMetric L F d t False ?s1"
      by simp
    have b: "\<And>h. readBack F d t ?s1 = Some h \<Longrightarrow> h < minHits L"
      using assms(2) readBack_after [of F d t ?s1 _ L False]
      by (simp add: e p belowThreshold_def)
    show ?thesis
    proof (cases "readBack F d t ?s1")
      case None
      then show ?thesis
        by (simp add: e updateMetric_Rdb_eq updateMetric_accesses cacheWrite_def newAccesses_def)
    next
      case (Some h)
      with b have "h < minHits L" by simp
      with Some show ?thesis
        by (simp add: e updateMetric_Rdb_eq updateMetric_accesses cacheWrite_def newAccesses_def)
    qed
  qed
qed

lemma run_below_no_write:
  "queriesBelow L (run L es s) es \<Longrightarrow>
     Rdb (run L es s) = Rdb s \<and> \<not> cacheWrite s (run L es s)"
proof (induction es arbitrary: s)
  case Nil
  then show ?case by simp
next
  case (Cons e es)
  let ?s1 = "step L e s"
  from Cons.prems have rest: "queriesBelow L (run L es ?s1) es"
    by (cases e) simp_all
  note ih = Cons.IH [OF rest]
  have first: "Rdb ?s1 = Rdb s \<and> \<not> cacheWrite s ?s1"
  proof (cases e)
    case (Elapse n)
    then show ?thesis
      by (simp add: cacheWrite_def newAccesses_def)
  next
    case (Query F r)
    show ?thesis
    proof (cases "Question r")
      case Nil
      with Query show ?thesis
        by (simp add: serve_no_question)
    next
      case (Cons q qs)
      with Cons.prems Query have "belowThreshold L (run L es ?s1) (pairOf L q)"
        by simp
      then have "belowThreshold L ?s1 (pairOf L q)"
        by (rule belowThreshold_earlier)
      with serve_below_no_write [OF Cons, of L F s] Query show ?thesis
        by simp
    qed
  qed
  with ih show ?case
    by (simp add: cacheWrite_run_Cons del: run.simps) simp
qed

lemma Question_askA: "Question (query ''example.com.'' TypeA) = qA # []"
  by (simp add: query_def qA_def)

lemma minHits_lib0: "minHits lib0 = 5"
  by (simp add: minHits_def MustGetenv_def lib0_simps)

lemma noFaults_sel:
  "f_get noFaults = False" "f_fetch noFaults = False" "f_incr noFaults = False"
  "f_hits noFaults = False" "f_refetch noFaults = False" "f_set noFaults = False"
  by (simp_all add: noFaults_def)

lemma lib0_sel:
  "Marshal lib0 = Marshal0" "Unmarshal lib0 = Unmarshal0"
  by (simp_all add: lib0_def)

lemmas step_simps = serve_state [OF Question_askA pairOf_qA] updateMetric_eq readBack_eq
  counted_def counterAfter_def cacheHit_def rowsFor_def record_io_def RdbSet_def CacheKey_A
  minHits_lib0 noFaults_sel lib0_sel Marshal0_def Unmarshal0_def

text \<open>
  Claim C5. A run of the policy whose counter read-back is below the threshold makes the
  two counter accesses and nothing else: the cache is as before. Over a run of requests:
  when every pair asked for still has its counter below the threshold at the end, no
  request of the run issued a cache SET and the cache is unchanged.
\<close>

theorem below_threshold_no_cache_write:
  "(readBack F d t s = Some h \<and> h < minHits L \<longrightarrow>
      Rdb (updateMetric L F d t servedFromCache s) = Rdb s
      \<and> newAccesses s (updateMetric L F d t servedFromCache s) = [PgIncrement d t, PgHits d t])
   \<and> (queriesBelow L (run L es s') es \<longrightarrow>
      Rdb (run L es s') = Rdb s' \<and> \<not> cacheWrite s' (run L es s'))"
proof (intro conjI impI)
  assume "readBack F d t s = Some h \<and> h < minHits L"
  then have u: "updateMetric L F d t servedFromCache s = counted F d t s"
    by (simp add: updateMetric_below)
  show "Rdb (updateMetric L F d t servedFromCache s) = Rdb s"
    by (simp add: u)
  show "newAccesses s (updateMetric L F d t servedFromCache s) = [PgIncrement d t, PgHits d t]"
    by (simp add: u newAccesses_def)
next
  assume q: "queriesBelow L (run L es s') es"
  from run_below_no_write [OF q] show "Rdb (run L es s') = Rdb s'"
    and "\<not> cacheWrite s' (run L es s')"
    by simp_all
qed

theorem below_threshold_no_cache_write_witness:
  "readBack noFaults ''example.com'' ''A'' sysA = Some 1 \<and> 1 < minHits lib0
   \<and> newAccesses sysA (updateMetric lib0 noFaults ''example.com'' ''A'' False sysA)
       = [PgIncrement ''example.com'' ''A'', PgHits ''example.com'' ''A'']
   \<and> dns_metrics (run lib0 [askA, askA, askA, askA] sysA) (''example.com'', ''A'') = Some 4
   \<and> Rdb (run lib0 [askA, askA, askA, askA] sysA) = Rdb sysA
   \<and> \<not> cacheWrite sysA (run lib0 [askA, askA, askA, askA] sysA)"
proof -
  have r: "readBack noFaults ''example.com'' ''A'' sysA = Some 1"
    by (simp add: readBack_eq counterAfter_def noFaults_sel sysA_def emptySys_def)
  have m: "dns_metrics (run lib0 [askA, askA, askA, askA] sysA) (''example.com'', ''A'') = Some 4"
    by (simp add: askA_def step_simps sysA_def emptySys_def sampleA_def)
  have q: "queriesBelow lib0 (run lib0 [askA, askA, askA, askA] sysA) [askA, askA, askA, askA]"
    unfolding askA_def queriesBelow.simps Question_askA list.case pairOf_qA belowThreshold_def
    using m by (simp add: askA_def minHits_lib0)
  from below_threshold_no_cache_write
         [of noFaults "''example.com''" "''A''" sysA 1 lib0 False "[askA, askA, askA, askA]" sysA]
       r m q
  show ?thesis
    by (simp add: minHits_lib0)
qed

lemma policyWrote_store_served:
  assumes "policyWrote L e s p"
  shows "storeServed L e s p
         \<and> (\<exists>F r. e = Query F r \<and> cacheHit L F s (CacheKey (fst p) (snd p)) = None
               \<and> (\<exists>h. counterAfter (f_incr F) (dns_metrics s p) = Some h \<and> minHits L \<le> h
                      \<and> dns_metrics (step L e s) p = Some h))"
proof -
  from assms obtain F r q qs where e: "e = Query F r" and q: "Question r = q # qs"
    and p: "pairOf L q = p" and w: "cacheWrite s (snd (serve L F r s))"
    by (auto simp: policyWrote_def split: event.splits list.splits)
  obtain d t where dt: "p = (d, t)"
    by (cases p)
  let ?s1 = "s\<lparr>accesses := accesses s @ [RedisGet (CacheKey d t), PgFetch d t]\<rparr>"
  note st = serve_state [OF q p [unfolded dt], of F s]
  have miss: "cacheHit L F s (CacheKey d t) = None"
  proof (rule ccontr)
    assume "cacheHit L F s (CacheKey d t) \<noteq> None"
    with st w show False
      by (auto simp: cacheWrite_def newAccesses_def)
  qed
  have rows: "\<not> (f_fetch F \<or> rowsFor d t s = [])"
  proof
    assume "f_fetch F \<or> rowsFor d t s = []"
    with st miss w show False
      by (auto simp: cacheWrite_def newAccesses_def)
  qed
  from st miss rows have u: "snd (serve L F r s) = updateMetric L F d t False ?s1"
    by simp
  from w obtain h where h: "readBack F d t ?s1 = Some h" "minHits L \<le> h"
    by (auto simp: u cacheWrite_def newAccesses_def updateMetric_accesses
             split: option.splits if_splits)
  from h(1) have c: "counterAfter (f_incr F) (dns_metrics s (d, t)) = Some h"
    by (simp add: readBack_eq split: if_splits)
  have after: "dns_metrics (step L e s) p = Some h"
    using readBack_after [OF h(1), of L False] by (simp add: e u dt)
  have served: "storeServed L e s p"
    using Handle_miss [OF q p [unfolded dt] miss] rows
    by (simp add: storeServed_def e dt)
  from served miss c h(2) after show ?thesis
    by (auto simp: e dt)
qed

lemma serve_Rdb_at:
  assumes "Question r = q # qs" and "pairOf L q = (d, t)"
  shows "Rdb (snd (serve L F r s)) = Rdb s
         \<or> (\<exists>v. Rdb (snd (serve L F r s)) = (Rdb s)(CacheKey d t \<mapsto> v))"
  by (auto simp: serve_state [OF assms] updateMetric_Rdb_eq split: option.splits)

lemma serve_metrics_at:
  assumes "Question r = q # qs" and "pairOf L q = (d, t)"
  shows "dns_metrics (snd (serve L F r s)) = dns_metrics s
         \<or> dns_metrics (snd (serve L F r s))
              = (dns_metrics s)((d, t) := counterAfter (f_incr F) (dns_metrics s (d, t)))"
  by (simp add: serve_state [OF assms] updateMetric_metrics counted_def split: option.splits)

lemma storeServed_pair:
  assumes "Question r = q # qs" and "storeServed L (Query F r) s p"
  shows "pairOf L q = p"
proof -
  obtain d t where dt: "pairOf L q = (d, t)"
    by (cases "pairOf L q")
  from assms(2) show ?thesis
    by (cases "cacheHit L F s (CacheKey d t)")
       (auto simp: storeServed_def Handle_miss [OF assms(1) dt] Handle_hit [OF assms(1) dt] dt
             split: if_splits)
qed

lemma counterAfter_bound:
  assumes "case c of None \<Rightarrow> True | Some h \<Rightarrow> h \<le> int k"
    and "counterAfter fails c = Some h'"
  shows "h' \<le> int k + 1"
  using assms by (auto simp: counterAfter_def split: option.splits if_splits)

lemma coldInv_other:
  assumes "coldInv L p k s" and "Question r = q # qs" and "pairOf L q \<noteq> p"
    and "\<not> sharesKey p (pairOf L q)"
  shows "coldInv L p k (snd (serve L F r s))"
proof -
  obtain d t where dt: "pairOf L q = (d, t)"
    by (cases "pairOf L q")
  from assms(3,4) have k: "CacheKey d t \<noteq> CacheKey (fst p) (snd p)"
    by (simp add: sharesKey_def dt)
  from assms(3) have n: "(d, t) \<noteq> p"
    by (simp add: dt)
  from serve_Rdb_at [OF assms(2) dt, of F s] k
  have R: "Rdb (snd (serve L F r s)) (CacheKey (fst p) (snd p)) = Rdb s (CacheKey (fst p) (snd p))"
    by auto
  from serve_metrics_at [OF assms(2) dt, of F s] n
  have M: "dns_metrics (snd (serve L F r s)) p = dns_metrics s p"
    by auto
  from assms(1) show ?thesis
    by (simp add: coldInv_def R M)
qed

lemma coldInv_same:
  assumes "coldInv L p k s" and "Question r = q # qs" and "pairOf L q = p"
  shows "coldInv L p (k + (if storeServed L (Query F r) s p then 1 else 0)) (snd (serve L F r s))"
proof (cases "minHits L \<le> int k")
  case True
  then show ?thesis
    by (simp add: coldInv_def)
next
  case False
  obtain d t where dt: "p = (d, t)"
    by (cases p)
  from False assms(1) have abs: "Rdb s (CacheKey d t) = None"
    and cnt: "case dns_metrics s (d, t) of None \<Rightarrow> True | Some h \<Rightarrow> h \<le> int k"
    by (simp_all add: coldInv_def dt)
  have miss: "cacheHit L F s (CacheKey d t) = None"
    using abs by (rule cacheHit_absent)
  let ?s1 = "s\<lparr>accesses := accesses s @ [RedisGet (CacheKey d t), PgFetch d t]\<rparr>"
  note q = assms(2) and pq = assms(3) [unfolded dt]
  note hm = Handle_miss [OF q pq miss]
  note st = serve_state [OF q pq, of F s]
  show ?thesis
  proof (cases "f_fetch F \<or> rowsFor d t s = []")
    case True
    with hm have "\<not> storeServed L (Query F r) s p"
      by (simp add: storeServed_def dt)
    moreover from st miss True have "Rdb (snd (serve L F r s)) = Rdb s"
      and "dns_metrics (snd (serve L F r s)) = dns_metrics s"
      by simp_all
    ultimately show ?thesis
      using abs cnt by (simp add: coldInv_def dt)
  next
    case rows: False
    with hm have served: "storeServed L (Query F r) s p"
      by (simp add: storeServed_def dt)
    from st miss rows have u: "snd (serve L F r s) = updateMetric L F d t False ?s1"
      by simp
    have M: "dns_metrics (snd (serve L F r s)) (d, t)
               = counterAfter (f_incr F) (dns_metrics s (d, t))"
      by (simp add: u updateMetric_metrics)
    have bound: "case dns_metrics (snd (serve L F r s)) (d, t) of
                   None \<Rightarrow> True | Some h \<Rightarrow> h \<le> int (k + 1)"
      using counterAfter_bound [OF cnt, of "f_incr F"]
      by (auto simp: M split: option.splits)
    show ?thesis
    proof (cases "Rdb (snd (serve L F r s)) (CacheKey d t) = None")
      case True
      with bound served show ?thesis
        by (auto simp: coldInv_def dt split: option.splits)
    next
      case wrote: False
      with abs obtain h where h: "readBack F d t ?s1 = Some h" "minHits L \<le> h"
        by (auto simp: u updateMetric_Rdb_eq split: option.splits if_splits)
      from h(1) have "counterAfter (f_incr F) (dns_metrics s (d, t)) = Some h"
        by (simp add: readBack_eq split: if_splits)
      from counterAfter_bound [OF cnt this] h(2) have "minHits L \<le> int (k + 1)"
        by simp
      with served show ?thesis
        by (simp add: coldInv_def)
    qed
  qed
qed

lemma coldInv_step:
  assumes "coldInv L p k s" and "noAlias L p [e]"
  shows "coldInv L p (k + (if storeServed L e s p then 1 else 0)) (step L e s)"
proof (cases e)
  case (Elapse n)
  with assms(1) show ?thesis
    by (simp add: coldInv_def storeServed_def)
next
  case (Query F r)
  show ?thesis
  proof (cases "Question r")
    case Nil
    then have "\<not> storeServed L (Query F r) s p"
      by (simp add: storeServed_def Handle_no_question)
    with assms(1) Nil Query show ?thesis
      by (simp add: serve_no_question)
  next
    case (Cons q qs)
    show ?thesis
    proof (cases "pairOf L q = p")
      case True
      from coldInv_same [OF assms(1) Cons True, of F] Query show ?thesis
        by simp
    next
      case False
      with storeServed_pair [OF Cons, of L F s p] have "\<not> storeServed L (Query F r) s p"
        by blast
      moreover from assms(2) Query Cons have "\<not> sharesKey p (pairOf L q)"
        by simp
      ultimately show ?thesis
        using coldInv_other [OF assms(1) Cons False, of F] Query by simp
    qed
  qed
qed

lemma coldInv_run:
  "coldInv L p k s \<Longrightarrow> noAlias L p es
     \<Longrightarrow> coldInv L p (k + countStoreServed L p es s) (run L es s)"
proof (induction es arbitrary: k s)
  case Nil
  then show ?case by simp
next
  case (Cons e es)
  from Cons.prems(2) have a: "noAlias L p [e]" "noAlias L p es"
    by (cases e; simp)+
  from coldInv_step [OF Cons.prems(1) a(1)]
  have "coldInv L p (k + (if storeServed L e s p then 1 else 0)) (step L e s)" .
  from Cons.IH [OF this a(2)] show ?case
    by (simp add: add.assoc)
qed

lemma countStoreServed_append:
  "countStoreServed L p (es @ es') s
     = countStoreServed L p es s + countStoreServed L p es' (run L es s)"
  by (induction es arbitrary: s) simp_all

lemma run_append: "run L (es @ es') s = run L es' (run L es s)"
  by (induction es arbitrary: s) simp_all

lemma cold_pair_write_bound:
  assumes "dns_metrics s p = None" and "Rdb s (CacheKey (fst p) (snd p)) = None"
    and "noAlias L p es" and "policyWrote L e (run L es s) p"
  shows "minHits L \<le> int (countStoreServed L p (es @ [e]) s)"
proof -
  let ?k = "countStoreServed L p es s" and ?s' = "run L es s"
  have "coldInv L p 0 s"
    using assms(1,2) by (simp add: coldInv_def)
  from coldInv_run [OF this assms(3)] have inv: "coldInv L p ?k ?s'"
    by simp
  from policyWrote_store_served [OF assms(4)] obtain F h
    where served: "storeServed L e ?s' p"
      and c: "counterAfter (f_incr F) (dns_metrics ?s' p) = Some h" and h: "minHits L \<le> h"
      and miss: "cacheHit L F ?s' (CacheKey (fst p) (snd p)) = None"
    by blast
  have total: "countStoreServed L p (es @ [e]) s = ?k + 1"
    using served by (simp add: countStoreServed_append)
  show ?thesis
  proof (cases "minHits L \<le> int ?k")
    case True
    then show ?thesis by (simp add: total)
  next
    case False
    with inv have "case dns_metrics ?s' p of None \<Rightarrow> True | Some h \<Rightarrow> h \<le> int ?k"
      by (simp add: coldInv_def)
    from counterAfter_bound [OF this c] h show ?thesis
      by (simp add: total)
  qed
qed

lemma minHits_lib2: "minHits lib2 = 2"
  by (simp add: minHits_def MustGetenv_def lib2_def lib0_simps)

lemma lib2_sel:
  "Marshal lib2 = Marshal0" "Unmarshal lib2 = Unmarshal0" "TypeToString lib2 = TypeToString0"
  by (simp_all add: lib2_def lib0_def)

lemma pairOf2_qA: "pairOf lib2 qA = (''example.com'', ''A'')"
  by (simp add: pairOf_def qA_def lib2_sel TypeToString0_def TrimSuffix_def)

lemma pairOf2_qUpper: "pairOf lib2 qUpper = (''Example.com'', ''A'')"
  by (simp add: pairOf_def qUpper_def lib2_sel TypeToString0_def TrimSuffix_def)

lemma Question_askUpper: "Question (query ''Example.com.'' TypeA) = qUpper # []"
  by (simp add: query_def qUpper_def)

lemma CacheKey_Upper: "CacheKey ''Example.com'' ''A'' = ''dns:record:example.com:A''"
  by (simp add: CacheKey_def str_simps)

lemmas step2_simps =
  serve_state [OF Question_askA pairOf2_qA] serve_state [OF Question_askUpper pairOf2_qUpper]
  Handle_question [OF Question_askA] Handle_question [OF Question_askUpper]
  Question_askA Question_askUpper pairOf2_qA pairOf2_qUpper Let_def
  updateMetric_eq readBack_eq counted_def counterAfter_def cacheHit_def rowsFor_def record_io_def
  RdbSet_def CacheKey_A CacheKey_Upper minHits_lib2 noFaults_sel lib2_sel Marshal0_def
  Unmarshal0_def sampleA_def sampleUpper_def emptySys_def askA_def askUpper_def
  policyWrote_def storeServed_def cacheWrite_def newAccesses_def

lemma cold_run_example:
  "policyWrote lib2 askA (run lib2 [askA] sysA) (''example.com'', ''A'')
   \<and> countStoreServed lib2 (''example.com'', ''A'') [askA, askA] sysA = 2
   \<and> \<not> cacheWrite sysA (run lib2 [askA] sysA)
   \<and> Rdb (run lib2 [askA, askA] sysA)
       = [''dns:record:example.com:A'' \<mapsto> (''[example.com A 300 203.0.113.5]'', Hour)]
   \<and> \<not> policyWrote lib2 askA (run lib2 [askA, askA] sysA) (''example.com'', ''A'')
   \<and> policyWrote lib2 askA (run lib2 [askA, askA, askA, Elapse Hour] sysA) (''example.com'', ''A'')"
  by (simp add: step2_simps sysA_def)

lemma alias_run_example:
  "policyWrote lib2 askUpper (run lib2 [askA, askA, askUpper, Elapse Hour] sysAU)
     (''Example.com'', ''A'')
   \<and> countStoreServed lib2 (''Example.com'', ''A'')
         [askA, askA, askUpper, Elapse Hour, askUpper] sysAU = 1
   \<and> dns_metrics (run lib2 [askA, askA, askUpper, Elapse Hour, askUpper] sysAU)
        (''Example.com'', ''A'') = Some 2"
  by (simp add: step2_simps sysAU_def)

text \<open>
  Claim C2, as stated, fails. With threshold 2 and rows for \<^verbatim>\<open>example.com\<close> and for
  \<^verbatim>\<open>Example.com\<close>, which share the cache key \<^verbatim>\<open>dns:record:example.com:A\<close> but neither the
  store rows nor the counter: two queries for \<^verbatim>\<open>example.com\<close> fill the key, a query for
  \<^verbatim>\<open>Example.com\<close> is then served from the cache and counted, the entry expires, and the next
  query for \<^verbatim>\<open>Example.com\<close>, its first store-served one, reads the counter 2 and writes the
  cache. The pair started uncached with no counter, and was cached by the policy after one
  resolution that was not served from the cache.
\<close>

theorem shared_cache_key_counterexample:
  "dns_metrics sysAU (''Example.com'', ''A'') = None
   \<and> Rdb sysAU (CacheKey ''Example.com'' ''A'') = None
   \<and> minHits lib2 = 2
   \<and> policyWrote lib2 askUpper (run lib2 [askA, askA, askUpper, Elapse Hour] sysAU)
         (''Example.com'', ''A'')
   \<and> countStoreServed lib2 (''Example.com'', ''A'')
         [askA, askA, askUpper, Elapse Hour, askUpper] sysAU = 1"
proof -
  have "dns_metrics sysAU (''Example.com'', ''A'') = None"
    and "Rdb sysAU (CacheKey ''Example.com'' ''A'') = None"
    by (simp_all add: sysAU_def emptySys_def)
  with minHits_lib2 alias_run_example show ?thesis
    by simp
qed

text \<open>
  Claim C2, amended. The policy issues a cache SET only in a request that was answered
  from the store, and then the counter of the pair, which counts cache-served resolutions
  too, has reached the threshold. For a pair that starts uncached with its counter absent,
  in a run in which no other pair with the same cache key is asked for, the number of
  store-served responses for the pair, the writing one included, has then reached the
  threshold. A request that finds a usable cache entry writes nothing, so the pair is not
  written again while its entry is served. The threshold is \<^verbatim>\<open>ParseInt("5")\<close> when
  \<^verbatim>\<open>MIN_HITS_FOR_CACHE\<close> is not set.
\<close>

theorem promotion_after_threshold:
  "(policyWrote L e s p \<longrightarrow>
      storeServed L e s p \<and> (\<exists>h. dns_metrics (step L e s) p = Some h \<and> minHits L \<le> h))
   \<and> (dns_metrics s0 p = None \<and> Rdb s0 (CacheKey (fst p) (snd p)) = None
        \<and> noAlias L p es \<and> policyWrote L e (run L es s0) p \<longrightarrow>
      minHits L \<le> int (countStoreServed L p (es @ [e]) s0))
   \<and> (Question r = q # qs \<and> pairOf L q = (d, t) \<and> cacheHit L F s1 (CacheKey d t) \<noteq> None \<longrightarrow>
      \<not> cacheWrite s1 (step L (Query F r) s1))
   \<and> (Getenv L ''MIN_HITS_FOR_CACHE'' = [] \<longrightarrow> minHits L = ParseInt L ''5'')"
proof (intro conjI impI)
  assume w: "policyWrote L e s p"
  from policyWrote_store_served [OF w] show "storeServed L e s p"
    by blast
  from policyWrote_store_served [OF w]
  show "\<exists>h. dns_metrics (step L e s) p = Some h \<and> minHits L \<le> h"
    by blast
next
  assume "dns_metrics s0 p = None \<and> Rdb s0 (CacheKey (fst p) (snd p)) = None
        \<and> noAlias L p es \<and> policyWrote L e (run L es s0) p"
  then show "minHits L \<le> int (countStoreServed L p (es @ [e]) s0)"
    by (intro cold_pair_write_bound) simp_all
next
  assume a: "Question r = q # qs \<and> pairOf L q = (d, t) \<and> cacheHit L F s1 (CacheKey d t) \<noteq> None"
  then have q: "Question r = q # qs" and p: "pairOf L q = (d, t)"
    by simp_all
  from a serve_state [OF q p, of F s1]
  show "\<not> cacheWrite s1 (step L (Query F r) s1)"
    by (auto simp: cacheWrite_def newAccesses_def)
next
  assume "Getenv L ''MIN_HITS_FOR_CACHE'' = []"
  then show "minHits L = ParseInt L ''5''"
    by (simp add: minHits_def MustGetenv_def)
qed

theorem promotion_after_threshold_witness:
  "policyWrote lib2 askA (run lib2 [askA] sysA) (''example.com'', ''A'')
   \<and> storeServed lib2 askA (run lib2 [askA] sysA) (''example.com'', ''A'')
   \<and> minHits lib2 = 2
   \<and> countStoreServed lib2 (''example.com'', ''A'') [askA, askA] sysA = 2
   \<and> minHits lib2 \<le> int (countStoreServed lib2 (''example.com'', ''A'') ([askA] @ [askA]) sysA)
   \<and> \<not> cacheWrite (run lib2 [askA, askA] sysA)
          (step lib2 (Query noFaults (query ''example.com.'' TypeA)) (run lib2 [askA, askA] sysA))
   \<and> minHits lib0 = ParseInt lib0 ''5''"
proof -
  let ?p = "(''example.com'', ''A'')"
  have w: "policyWrote lib2 askA (run lib2 [askA] sysA) ?p"
    using cold_run_example by blast
  have c: "countStoreServed lib2 ?p [askA, askA] sysA = 2"
    using cold_run_example by blast
  have cold: "dns_metrics sysA ?p = None" "Rdb sysA (CacheKey (fst ?p) (snd ?p)) = None"
    by (simp_all add: sysA_def emptySys_def)
  have na: "noAlias lib2 ?p [askA]"
    by (simp add: askA_def Question_askA pairOf2_qA sharesKey_def)
  have hit: "cacheHit lib2 noFaults (run lib2 [askA, askA] sysA) (CacheKey ''example.com'' ''A'')
               \<noteq> None"
    by (simp add: step2_simps sysA_def)
  have env: "Getenv lib0 ''MIN_HITS_FOR_CACHE'' = []"
    by (simp add: lib0_def)
  note t = promotion_after_threshold [of lib2 askA "run lib2 [askA] sysA" ?p sysA "[askA]"
      "query ''example.com.'' TypeA" qA "[]" "''example.com''" "''A''" noFaults
      "run lib2 [askA, askA] sysA"]
  have 1: "storeServed lib2 askA (run lib2 [askA] sysA) ?p"
    using t w by blast
  have 2: "minHits lib2 \<le> int (countStoreServed lib2 ?p ([askA] @ [askA]) sysA)"
    using t cold na w by blast
  have 3: "\<not> cacheWrite (run lib2 [askA, askA] sysA)
          (step lib2 (Query noFaults (query ''example.com.'' TypeA)) (run lib2 [askA, askA] sysA))"
    using t Question_askA pairOf2_qA hit by blast
  have 4: "minHits lib0 = ParseInt lib0 ''5''"
    using promotion_after_threshold [of lib0] env by blast
  from w 1 minHits_lib2 c 2 3 4 show ?thesis
    by (intro conjI)
qed

end
